theory Spec2Isabelle
  imports Complex_Main
begin

section \<open>The service supervisor of service\_manager.py\<close>

text \<open>
  The development embeds \<^verbatim>\<open>src/service_manager.py\<close>: the class \<^verbatim>\<open>ServiceInfo\<close>, the
  class \<^verbatim>\<open>ServiceManager\<close> with its PID files, and the part of the operating system the
  manager talks to through \<^verbatim>\<open>psutil\<close>, \<^verbatim>\<open>subprocess\<close> and \<^verbatim>\<open>time\<close>.

  Every method becomes a function that takes the manager and the operating system and
  returns the method's result with the new manager and the new operating system.
\<close>

subsection \<open>Strings\<close>

text \<open>
  Python strings are modelled as lists of 8-bit characters; the functions below are the
  ASCII behaviour of \<^verbatim>\<open>str.split()\<close>, \<^verbatim>\<open>' '.join\<close>, \<^verbatim>\<open>str.lower\<close>,
  \<^verbatim>\<open>str.replace(c, '')\<close> and the substring test \<^verbatim>\<open>needle in haystack\<close>.
\<close>

definition is_space :: "char \<Rightarrow> bool" where
  "is_space c = (c \<in> set [CHR '' '', CHR 0x09, CHR 0x0A, CHR 0x0B, CHR 0x0C, CHR 0x0D,
                            CHR 0x1C, CHR 0x1D, CHR 0x1E, CHR 0x1F])"

fun split_from :: "string \<Rightarrow> string \<Rightarrow> string list" where
  "split_from cur [] = (if cur = [] then [] else [cur])"
| "split_from cur (c # cs) =
     (if is_space c then (if cur = [] then [] else [cur]) @ split_from [] cs
      else split_from (cur @ [c]) cs)"

definition str_split :: "string \<Rightarrow> string list" where
  "str_split s = split_from [] s"

fun join :: "string \<Rightarrow> string list \<Rightarrow> string" where
  "join sep [] = []"
| "join sep [x] = x"
| "join sep (x # y # ys) = x @ sep @ join sep (y # ys)"

definition lower_char :: "char \<Rightarrow> char" where
  "lower_char c =
     (let k = (of_char c :: nat) in if 65 \<le> k \<and> k \<le> 90 then char_of (k + 32) else c)"

definition lower :: "string \<Rightarrow> string" where
  "lower s = map lower_char s"

definition remove_char :: "char \<Rightarrow> string \<Rightarrow> string" where
  "remove_char c s = filter (\<lambda>x. x \<noteq> c) s"

fun starts_with :: "string \<Rightarrow> string \<Rightarrow> bool" where
  "starts_with [] hay = True"
| "starts_with (x # xs) [] = False"
| "starts_with (x # xs) (y # ys) = (x = y \<and> starts_with xs ys)"

fun contains :: "string \<Rightarrow> string \<Rightarrow> bool" where
  "contains needle [] = (needle = [])"
| "contains needle (h # hs) = (starts_with needle (h # hs) \<or> contains needle hs)"

subsection \<open>The data model\<close>

text \<open>
  \<^verbatim>\<open>ServiceInfo.status\<close> is one of the strings \<^verbatim>\<open>'stopped'\<close>, \<^verbatim>\<open>'starting'\<close>,
  \<^verbatim>\<open>'running'\<close>, \<^verbatim>\<open>'stopping'\<close>, \<^verbatim>\<open>'error'\<close>; the last one is \<open>Errored\<close> here.
  Timestamps, CPU percentages and memory sizes are Python floats, modelled as reals.
\<close>

datatype status = Stopped | Starting | Running | Stopping | Errored

record ServiceInfo =
  name :: string
  pid :: "int option"
  status :: status
  port :: "int option"
  start_time :: "real option"
  cpu_percent :: real
  memory_mb :: real
  command :: string
  log_file :: string

record ServiceManager =
  services :: "string \<rightharpoonup> ServiceInfo"
  system :: string

text \<open>
  The dictionary \<^verbatim>\<open>self.services\<close> gets its two keys in \<^verbatim>\<open>__init__\<close> and never gains or
  loses one; the loops over it visit the keys in insertion order.
\<close>

definition service_order :: "string list" where
  "service_order = [''smtp_server'', ''web_interface'']"

definition set_service :: "ServiceManager \<Rightarrow> string \<Rightarrow> ServiceInfo \<Rightarrow> ServiceManager" where
  "set_service m n s = m\<lparr>services := (services m)(n \<mapsto> s)\<rparr>"

subsection \<open>The operating system\<close>

text \<open>
  What the manager can observe of the operating system, and what it can do to it.

  \<^item> \<open>procs\<close> is the process table. A process answers \<^verbatim>\<open>cmdline()\<close>, \<^verbatim>\<open>create_time()\<close>
    and the pair \<^verbatim>\<open>cpu_percent()\<close>, \<^verbatim>\<open>memory_info().rss\<close> with a value or with one of the
    two psutil errors. \<open>exits_at\<close> is the time at which it exits by itself, if ever;
    \<open>signal_fault\<close> is the exception that sending it a signal raises, if any;
    \<open>ignores_term\<close> says that it survives SIGTERM.
  \<^item> \<open>pid_files\<close> is the directory \<^verbatim>\<open>logs/pids\<close>: the file \<^verbatim>\<open><name>.pid\<close> holds text that
    \<^verbatim>\<open>int(...)\<close> parses, or text on which it raises ValueError.
  \<^item> \<open>connections\<close> is what \<^verbatim>\<open>psutil.net_connections()\<close> answers: local port and status
    of every inet socket, or a psutil error.
  \<^item> \<open>clock\<close> is the wall clock; \<^verbatim>\<open>time.sleep\<close> advances it.
  \<^item> \<open>spawn_oracle k\<close> is what the \<open>k\<close>-th call of \<^verbatim>\<open>subprocess.Popen\<close> does, and
    \<open>spawn_count\<close> counts the calls made so far.
  \<^item> \<open>logged\<close> is what \<^verbatim>\<open>self.logger\<close> has written, each line with its \<^verbatim>\<open>asctime\<close>.

  psutil is modelled as on Linux, where \<^verbatim>\<open>pid_exists\<close> is false for every pid below 1.
  Reading, writing and deleting a PID file always succeeds.
\<close>

datatype psutil_error = NoSuchProcess | AccessDenied

datatype exn = Psutil psutil_error | TimeoutExpired | ValueError | OSError

datatype pid_file = Pid_text int | Garbage

datatype conn_status = LISTEN | ESTABLISHED | TIME_WAIT | CLOSE_WAIT | NONE

record process =
  cmdline :: "psutil_error + string list"
  create_time :: "psutil_error + real"
  usage :: "psutil_error + real \<times> real"
  exits_at :: "real option"
  signal_fault :: "exn option"
  ignores_term :: bool

datatype spawn_outcome = Spawn_fails exn | Spawn_ok int process

datatype log_event =
    Unknown_service string
  | Already_running string int
  | Starting_service string
  | Failed_to_start string
  | Started_ok string int
  | Start_exception string exn
  | Already_stopped string
  | Stopping_service string
  | Force_killed string
  | Not_graceful string
  | Stopped_ok string
  | Stop_gone string exn
  | Stop_exception string exn
  | Restarting_service string
  | Starting_all
  | Stopping_all

record os =
  procs :: "int \<rightharpoonup> process"
  pid_files :: "string \<rightharpoonup> pid_file"
  connections :: "psutil_error + (int \<times> conn_status) list"
  clock :: real
  spawn_count :: nat
  spawn_oracle :: "nat \<Rightarrow> spawn_outcome"
  logged :: "(real \<times> log_event) list"

definition alive :: "os \<Rightarrow> int \<Rightarrow> bool" where
  "alive w p =
     (case procs w p of
        None \<Rightarrow> False
      | Some pr \<Rightarrow> (case exits_at pr of None \<Rightarrow> True | Some t \<Rightarrow> clock w < t))"

definition pid_exists :: "os \<Rightarrow> int \<Rightarrow> bool" where
  "pid_exists w p = (0 < p \<and> alive w p)"

definition Process :: "os \<Rightarrow> int \<Rightarrow> exn + int" where
  "Process w p = (if pid_exists w p then Inr p else Inl (Psutil NoSuchProcess))"

definition proc_cmdline :: "os \<Rightarrow> int \<Rightarrow> psutil_error + string list" where
  "proc_cmdline w h = (case procs w h of None \<Rightarrow> Inl NoSuchProcess | Some pr \<Rightarrow> cmdline pr)"

definition proc_create_time :: "os \<Rightarrow> int \<Rightarrow> psutil_error + real" where
  "proc_create_time w h =
     (case procs w h of None \<Rightarrow> Inl NoSuchProcess | Some pr \<Rightarrow> create_time pr)"

definition proc_usage :: "os \<Rightarrow> int \<Rightarrow> psutil_error + real \<times> real" where
  "proc_usage w h = (case procs w h of None \<Rightarrow> Inl NoSuchProcess | Some pr \<Rightarrow> usage pr)"

definition logger :: "os \<Rightarrow> log_event \<Rightarrow> os" where
  "logger w e = w\<lparr>logged := logged w @ [(clock w, e)]\<rparr>"

definition sleep :: "real \<Rightarrow> os \<Rightarrow> os" where
  "sleep d w = w\<lparr>clock := clock w + d\<rparr>"

text \<open>
  \<^verbatim>\<open>subprocess.Popen(argv)\<close>: the operating system refuses, or creates a process under a
  positive pid that no live process holds; its command line is \<open>argv\<close> and its creation
  time is the current time.
\<close>

definition Popen :: "os \<Rightarrow> string list \<Rightarrow> (exn + int) \<times> os" where
  "Popen w argv =
     (let w' = w\<lparr>spawn_count := Suc (spawn_count w)\<rparr> in
      case spawn_oracle w (spawn_count w) of
        Spawn_fails e \<Rightarrow> (Inl e, w')
      | Spawn_ok p pr \<Rightarrow>
          if argv = [] then (Inl OSError, w')
          else if p \<le> 0 then (Inl OSError, w')
          else if alive w p then (Inl OSError, w')
          else (Inr p,
                w'\<lparr>procs := (procs w)(p \<mapsto> pr\<lparr>cmdline := Inr argv,
                                                  create_time := Inr (clock w)\<rparr>)\<rparr>))"

text \<open>
  \<^verbatim>\<open>process.kill()\<close>, and \<^verbatim>\<open>process.terminate()\<close> or \<^verbatim>\<open>process.send_signal(SIGTERM)\<close>
  (the same signal on POSIX), and \<^verbatim>\<open>process.wait(timeout)\<close>, whose result \<open>False\<close> stands
  for \<^verbatim>\<open>psutil.TimeoutExpired\<close>. A process that does not ignore SIGTERM exits at once.
\<close>

definition proc_kill :: "os \<Rightarrow> int \<Rightarrow> exn + os" where
  "proc_kill w h =
     (case procs w h of
        None \<Rightarrow> Inl (Psutil NoSuchProcess)
      | Some pr \<Rightarrow>
          if alive w h then
            (case signal_fault pr of
               Some e \<Rightarrow> Inl e
             | None \<Rightarrow> Inr (w\<lparr>procs := (procs w)(h := None)\<rparr>))
          else Inl (Psutil NoSuchProcess))"

definition proc_terminate :: "os \<Rightarrow> int \<Rightarrow> exn + os" where
  "proc_terminate w h =
     (case procs w h of
        None \<Rightarrow> Inl (Psutil NoSuchProcess)
      | Some pr \<Rightarrow>
          if alive w h then
            (case signal_fault pr of
               Some e \<Rightarrow> Inl e
             | None \<Rightarrow> if ignores_term pr then Inr w
                       else Inr (w\<lparr>procs := (procs w)(h := None)\<rparr>))
          else Inl (Psutil NoSuchProcess))"

definition proc_wait :: "os \<Rightarrow> int \<Rightarrow> real \<Rightarrow> bool \<times> os" where
  "proc_wait w h timeout =
     (if alive w h
      then (if alive (sleep timeout w) h then (False, sleep timeout w)
            else (True, sleep timeout w))
      else (True, w))"

subsection \<open>PID files\<close>

definition save_pid :: "os \<Rightarrow> string \<Rightarrow> int \<Rightarrow> os" where
  "save_pid w service_name p = w\<lparr>pid_files := (pid_files w)(service_name \<mapsto> Pid_text p)\<rparr>"

definition remove_pid :: "os \<Rightarrow> string \<Rightarrow> os" where
  "remove_pid w service_name = w\<lparr>pid_files := (pid_files w)(service_name := None)\<rparr>"

subsection \<open>Reconciliation\<close>

definition is_our_process :: "os \<Rightarrow> int \<Rightarrow> string \<Rightarrow> bool" where
  "is_our_process w h service_name =
     (case proc_cmdline w h of
        Inl e \<Rightarrow> False
      | Inr argv \<Rightarrow> contains (remove_char CHR ''_'' service_name) (lower (join '' '' argv)))"

text \<open>The body of the loop of \<^verbatim>\<open>_load_pids\<close>, for one service name.\<close>

definition load_pid :: "ServiceManager \<Rightarrow> os \<Rightarrow> string \<Rightarrow> ServiceManager \<times> os" where
  "load_pid m w service_name =
     (case services m service_name of
        None \<Rightarrow> (m, w)
      | Some service \<Rightarrow>
         (case pid_files w service_name of
            None \<Rightarrow> (m, w)
          | Some Garbage \<Rightarrow> (m, remove_pid w service_name)
          | Some (Pid_text p) \<Rightarrow>
              if pid_exists w p then
                (case Process w p of
                   Inl e \<Rightarrow> (m, remove_pid w service_name)
                 | Inr h \<Rightarrow>
                     if is_our_process w h service_name then
                       (let service1 = service\<lparr>pid := Some p, status := Running\<rparr> in
                        case proc_create_time w h of
                          Inl e \<Rightarrow> (set_service m service_name service1,
                                    remove_pid w service_name)
                        | Inr t \<Rightarrow> (set_service m service_name
                                      (service1\<lparr>start_time := Some t\<rparr>), w))
                     else (m, remove_pid w service_name))
              else (m, remove_pid w service_name)))"

fun load_pids_from :: "string list \<Rightarrow> ServiceManager \<Rightarrow> os \<Rightarrow> ServiceManager \<times> os" where
  "load_pids_from [] m w = (m, w)"
| "load_pids_from (n # ns) m w = (case load_pid m w n of (m', w') \<Rightarrow> load_pids_from ns m' w')"

definition load_pids :: "ServiceManager \<Rightarrow> os \<Rightarrow> ServiceManager \<times> os" where
  "load_pids m w = load_pids_from service_order m w"

text \<open>
  \<^verbatim>\<open>ServiceManager.__init__\<close>: \<open>executable\<close> is \<^verbatim>\<open>sys.executable\<close>, \<open>logs_dir\<close> the
  directory of the log files and \<open>sys\<close> the lower-cased \<^verbatim>\<open>platform.system()\<close>.
\<close>

definition new_services :: "string \<Rightarrow> string \<Rightarrow> string \<rightharpoonup> ServiceInfo" where
  "new_services executable logs_dir =
     [''smtp_server'' \<mapsto>
        \<lparr>name = ''smtp_server'', pid = None, status = Stopped, port = Some 1025,
         start_time = None, cpu_percent = 0, memory_mb = 0,
         command = executable @ '' smtp_server.py'',
         log_file = logs_dir @ ''/smtp_server.log''\<rparr>,
      ''web_interface'' \<mapsto>
        \<lparr>name = ''web_interface'', pid = None, status = Stopped, port = Some 5000,
         start_time = None, cpu_percent = 0, memory_mb = 0,
         command = executable @ '' web_interface.py'',
         log_file = logs_dir @ ''/web_interface.log''\<rparr>]"

definition init :: "string \<Rightarrow> string \<Rightarrow> string \<Rightarrow> os \<Rightarrow> ServiceManager \<times> os" where
  "init executable logs_dir sys w =
     load_pids \<lparr>services = new_services executable logs_dir, system = sys\<rparr> w"

subsection \<open>Starting and stopping\<close>

text \<open>
  \<^verbatim>\<open>_update_service_stats\<close>. The two samples are taken one after the other inside one
  \<^verbatim>\<open>try\<close>; when either raises, both fields are set to zero, so one fallible sample of the
  pair gives the same final state.
\<close>

definition update_service_stats :: "ServiceManager \<Rightarrow> os \<Rightarrow> string \<Rightarrow> ServiceManager" where
  "update_service_stats m w service_name =
     (case services m service_name of
        None \<Rightarrow> m
      | Some service \<Rightarrow>
         (case pid service of
            None \<Rightarrow> m
          | Some p \<Rightarrow>
              if p = 0 then m
              else if pid_exists w p then
                (case Process w p of
                   Inl e \<Rightarrow> set_service m service_name
                              (service\<lparr>cpu_percent := 0, memory_mb := 0\<rparr>)
                 | Inr h \<Rightarrow>
                    (case proc_usage w h of
                       Inl e \<Rightarrow> set_service m service_name
                                  (service\<lparr>cpu_percent := 0, memory_mb := 0\<rparr>)
                     | Inr (cpu, rss) \<Rightarrow> set_service m service_name
                                  (service\<lparr>cpu_percent := cpu,
                                           memory_mb := rss / 1024 / 1024\<rparr>)))
              else m))"

text \<open>
  \<^verbatim>\<open>start_service\<close>. Both branches of \<^verbatim>\<open>if background\<close> call \<^verbatim>\<open>Popen\<close> on
  \<^verbatim>\<open>service.command.split()\<close>; they differ in the redirection of the output and in the
  session of the child, which the process table does not record. An exception of
  \<^verbatim>\<open>open(service.log_file, 'a')\<close> is one of the ways in which the spawn fails.
\<close>

definition start_service ::
  "ServiceManager \<Rightarrow> os \<Rightarrow> string \<Rightarrow> bool \<Rightarrow> bool \<times> ServiceManager \<times> os" where
  "start_service m w service_name background =
     (case services m service_name of
        None \<Rightarrow> (False, m, logger w (Unknown_service service_name))
      | Some service \<Rightarrow>
         if status service = Running \<and>
            (case pid service of None \<Rightarrow> False | Some p \<Rightarrow> p \<noteq> 0 \<and> pid_exists w p)
         then (True, m,
               logger w (Already_running service_name
                           (case pid service of Some p \<Rightarrow> p | None \<Rightarrow> 0)))
         else
          (let w1 = logger w (Starting_service service_name);
               service1 = service\<lparr>status := Starting\<rparr>
           in case Popen w1 (str_split (command service1)) of
                (Inl e, w2) \<Rightarrow>
                  (False, set_service m service_name (service1\<lparr>status := Errored\<rparr>),
                   logger w2 (Start_exception service_name e))
              | (Inr p, w2) \<Rightarrow>
                  (let service2 = service1\<lparr>pid := Some p, start_time := Some (clock w2),
                                            status := Running\<rparr>;
                       w3 = save_pid w2 service_name p;
                       w4 = sleep 2 w3
                   in if \<not> pid_exists w4 p
                      then (False, set_service m service_name (service2\<lparr>status := Errored\<rparr>),
                            logger w4 (Failed_to_start service_name))
                      else (True, set_service m service_name service2,
                            logger w4 (Started_ok service_name p)))))"

text \<open>
  The body of the \<^verbatim>\<open>try\<close> of \<^verbatim>\<open>stop_service\<close> from \<^verbatim>\<open>psutil.Process(service.pid)\<close> to the
  last \<^verbatim>\<open>process.kill()\<close>: it ends normally or with the exception that leaves it.
  \<^verbatim>\<open>self.system\<close> chooses between \<^verbatim>\<open>terminate()\<close> and \<^verbatim>\<open>send_signal(SIGTERM)\<close>.
\<close>

definition signal_process ::
  "ServiceManager \<Rightarrow> os \<Rightarrow> string \<Rightarrow> int \<Rightarrow> bool \<Rightarrow> exn option \<times> os" where
  "signal_process m w service_name p force =
     (case Process w p of
        Inl e \<Rightarrow> (Some e, w)
      | Inr h \<Rightarrow>
          if force then
            (case proc_kill w h of
               Inl e \<Rightarrow> (Some e, w)
             | Inr w1 \<Rightarrow> (None, logger w1 (Force_killed service_name)))
          else
            (case (if system m = ''windows'' then proc_terminate w h else proc_terminate w h) of
               Inl e \<Rightarrow> (Some e, w)
             | Inr w1 \<Rightarrow>
                (case proc_wait w1 h 10 of
                   (True, w2) \<Rightarrow> (None, w2)
                 | (False, w2) \<Rightarrow>
                    (let w3 = logger w2 (Not_graceful service_name) in
                     case proc_kill w3 h of
                       Inl e \<Rightarrow> (Some e, w3)
                     | Inr w4 \<Rightarrow> (None, w4)))))"

definition stop_service ::
  "ServiceManager \<Rightarrow> os \<Rightarrow> string \<Rightarrow> bool \<Rightarrow> bool \<times> ServiceManager \<times> os" where
  "stop_service m w service_name force =
     (case services m service_name of
        None \<Rightarrow> (False, m, logger w (Unknown_service service_name))
      | Some service \<Rightarrow>
         (case pid service of
            None \<Rightarrow> (True, m, logger w (Already_stopped service_name))
          | Some p \<Rightarrow>
             if status service = Stopped \<or> p = 0
             then (True, m, logger w (Already_stopped service_name))
             else
              (let w1 = logger w (Stopping_service service_name);
                   service1 = service\<lparr>status := Stopping\<rparr>
               in if \<not> pid_exists w1 p
                  then (True,
                        set_service m service_name (service1\<lparr>status := Stopped, pid := None\<rparr>),
                        remove_pid w1 service_name)
                  else
                   (case signal_process m w1 service_name p force of
                      (None, w2) \<Rightarrow>
                        (True,
                         set_service m service_name
                           (service1\<lparr>status := Stopped, pid := None, start_time := None,
                                      cpu_percent := 0, memory_mb := 0\<rparr>),
                         logger (remove_pid w2 service_name) (Stopped_ok service_name))
                    | (Some (Psutil e), w2) \<Rightarrow>
                        (True,
                         set_service m service_name (service1\<lparr>status := Stopped, pid := None\<rparr>),
                         logger (remove_pid w2 service_name) (Stop_gone service_name (Psutil e)))
                    | (Some e, w2) \<Rightarrow>
                        (False, set_service m service_name service1,
                         logger w2 (Stop_exception service_name e))))))"

definition restart_service ::
  "ServiceManager \<Rightarrow> os \<Rightarrow> string \<Rightarrow> bool \<times> ServiceManager \<times> os" where
  "restart_service m w service_name =
     (case stop_service m (logger w (Restarting_service service_name)) service_name False of
        (False, m1, w1) \<Rightarrow> (False, m1, w1)
      | (True, m1, w1) \<Rightarrow> start_service m1 (sleep 2 w1) service_name True)"

definition get_service_status ::
  "ServiceManager \<Rightarrow> os \<Rightarrow> string \<Rightarrow> ServiceInfo option \<times> ServiceManager \<times> os" where
  "get_service_status m w service_name =
     (case services m service_name of
        None \<Rightarrow> (None, m, w)
      | Some service \<Rightarrow>
         (case pid service of
            None \<Rightarrow> (Some service, m, w)
          | Some p \<Rightarrow>
             if status service = Running \<and> p \<noteq> 0 then
               (if \<not> pid_exists w p
                then (let service1 = service\<lparr>status := Stopped, pid := None,
                                              start_time := None\<rparr>
                      in (Some service1, set_service m service_name service1,
                          remove_pid w service_name))
                else (let m1 = update_service_stats m w service_name
                      in (services m1 service_name, m1, w)))
             else (Some service, m, w)))"

subsection \<open>All services\<close>

definition start_all :: "ServiceManager \<Rightarrow> os \<Rightarrow> bool \<times> ServiceManager \<times> os" where
  "start_all m w =
     (case start_service m (logger w Starting_all) ''smtp_server'' True of
        (ok1, m1, w1) \<Rightarrow>
          (case start_service m1 (sleep 3 w1) ''web_interface'' True of
             (ok2, m2, w2) \<Rightarrow> (ok1 \<and> ok2, m2, w2)))"

definition stop_all :: "ServiceManager \<Rightarrow> os \<Rightarrow> bool \<Rightarrow> bool \<times> ServiceManager \<times> os" where
  "stop_all m w force =
     (case stop_service m (logger w Stopping_all) ''web_interface'' force of
        (ok1, m1, w1) \<Rightarrow>
          (case stop_service m1 w1 ''smtp_server'' force of
             (ok2, m2, w2) \<Rightarrow> (ok1 \<and> ok2, m2, w2)))"

subsection \<open>Port conflicts\<close>

text \<open>
  \<^verbatim>\<open>is_port_in_use\<close> reads the socket table; the psutil error of
  \<^verbatim>\<open>psutil.net_connections()\<close> is not caught and leaves \<^verbatim>\<open>get_port_conflicts\<close> as well.
\<close>

definition is_port_in_use :: "os \<Rightarrow> int \<Rightarrow> psutil_error + bool" where
  "is_port_in_use w pt =
     (case connections w of
        Inl e \<Rightarrow> Inl e
      | Inr conns \<Rightarrow> Inr (list_ex (\<lambda>conn. fst conn = pt \<and> snd conn = LISTEN) conns))"

fun port_conflicts_from ::
  "string list \<Rightarrow> ServiceManager \<Rightarrow> os \<Rightarrow> (string \<times> int) list
     \<Rightarrow> psutil_error + (string \<times> int) list" where
  "port_conflicts_from [] m w conflicts = Inr conflicts"
| "port_conflicts_from (service_name # ns) m w conflicts =
     (case services m service_name of
        None \<Rightarrow> port_conflicts_from ns m w conflicts
      | Some service \<Rightarrow>
         (case port service of
            None \<Rightarrow> port_conflicts_from ns m w conflicts
          | Some pt \<Rightarrow>
             if pt = 0 then port_conflicts_from ns m w conflicts
             else
              (case is_port_in_use w pt of
                 Inl e \<Rightarrow> Inl e
               | Inr False \<Rightarrow> port_conflicts_from ns m w conflicts
               | Inr True \<Rightarrow>
                   if status service \<noteq> Running
                   then port_conflicts_from ns m w (conflicts @ [(service_name, pt)])
                   else port_conflicts_from ns m w conflicts)))"

definition get_port_conflicts ::
  "ServiceManager \<Rightarrow> os \<Rightarrow> psutil_error + (string \<times> int) list" where
  "get_port_conflicts m w = port_conflicts_from service_order m w []"

subsection \<open>Runs of the supervisor\<close>

text \<open>
  The configurations a supervisor can be in: it is constructed over any operating system
  (whatever PID files and processes an earlier run left), and then its methods are called
  in any order while the operating system changes in any way that leaves the PID files
  alone (processes come and go, time passes, lines are logged). Only the one supervisor
  writes the PID files.
\<close>

inductive reachable :: "ServiceManager \<times> os \<Rightarrow> bool" where
  startup: "init executable logs_dir sys w = (m, w') \<Longrightarrow> reachable (m, w')"
| start: "reachable (m, w) \<Longrightarrow> start_service m w n background = (ok, m', w')
            \<Longrightarrow> reachable (m', w')"
| stop: "reachable (m, w) \<Longrightarrow> stop_service m w n force = (ok, m', w')
            \<Longrightarrow> reachable (m', w')"
| query: "reachable (m, w) \<Longrightarrow> get_service_status m w n = (r, m', w')
            \<Longrightarrow> reachable (m', w')"
| environment: "reachable (m, w) \<Longrightarrow> pid_files w' = pid_files w \<Longrightarrow> reachable (m, w')"

text \<open>The invariant of the data model: a pid is present exactly in the three live states.\<close>

definition pid_invariant :: "ServiceInfo \<Rightarrow> bool" where
  "pid_invariant s =
     ((pid s \<noteq> None) = (status s = Starting \<or> status s = Running \<or> status s = Stopping))"

text \<open>The service a log line is about.\<close>

fun about :: "log_event \<Rightarrow> string option" where
  "about (Unknown_service n) = Some n"
| "about (Already_running n p) = Some n"
| "about (Starting_service n) = Some n"
| "about (Failed_to_start n) = Some n"
| "about (Started_ok n p) = Some n"
| "about (Start_exception n e) = Some n"
| "about (Already_stopped n) = Some n"
| "about (Stopping_service n) = Some n"
| "about (Force_killed n) = Some n"
| "about (Not_graceful n) = Some n"
| "about (Stopped_ok n) = Some n"
| "about (Stop_gone n e) = Some n"
| "about (Stop_exception n e) = Some n"
| "about (Restarting_service n) = Some n"
| "about Starting_all = None"
| "about Stopping_all = None"

text \<open>
  What holds of every service in every configuration of a run: a Stopped service has no PID
  file, a stored pid is positive and the configured port is not 0; and the dictionary keeps
  its two keys.
\<close>

definition ok_at :: "ServiceManager \<Rightarrow> os \<Rightarrow> string \<Rightarrow> bool" where
  "ok_at m w n =
     (case services m n of
        None \<Rightarrow> True
      | Some s \<Rightarrow> (status s = Stopped \<longrightarrow> pid_files w n = None)
                  \<and> (\<forall>p. pid s = Some p \<longrightarrow> 0 < p)
                  \<and> port s \<noteq> Some 0)"

definition consistent :: "ServiceManager \<Rightarrow> os \<Rightarrow> bool" where
  "consistent m w = (dom (services m) = set service_order \<and> (\<forall>n. ok_at m w n))"

text \<open>
  The condition under which the loop of \<^verbatim>\<open>get_port_conflicts\<close> appends \<open>(k, pt)\<close>, given
  the socket table \<open>conns\<close>.
\<close>

definition conflict_at :: "ServiceManager \<Rightarrow> (int \<times> conn_status) list \<Rightarrow> string \<Rightarrow> int \<Rightarrow> bool" where
  "conflict_at m conns k pt =
     (case services m k of
        None \<Rightarrow> False
      | Some s \<Rightarrow> port s = Some pt \<and> pt \<noteq> 0 \<and> (pt, LISTEN) \<in> set conns \<and> status s \<noteq> Running)"

text \<open>
  \<open>extends n w w' l\<close>: from \<open>w\<close> to \<open>w'\<close> the log grew by the lines \<open>l\<close>, all of them about
  the service \<open>n\<close> and stamped between the two clocks, and the clock did not go back.
\<close>

definition extends :: "string \<Rightarrow> os \<Rightarrow> os \<Rightarrow> (real \<times> log_event) list \<Rightarrow> bool" where
  "extends n w w' l =
     (logged w' = logged w @ l \<and> clock w \<le> clock w'
      \<and> (\<forall>x \<in> set l. about (snd x) = Some n \<and> clock w \<le> fst x \<and> fst x \<le> clock w'))"

text \<open>The live processes whose command line is \<open>argv\<close>.\<close>

definition workers :: "os \<Rightarrow> string list \<Rightarrow> int set" where
  "workers w argv = {r. alive w r \<and> proc_cmdline w r = Inr argv}"

subsection \<open>Concrete operating systems\<close>

text \<open>
  A worker that runs until it is told to stop, and operating systems that start with no
  process and no PID file at time 0: one whose workers keep running, one whose workers
  exit one second after their launch, one whose workers exit after a minute, and one
  that refuses every launch. \<open>boot\<close> constructs the supervisor with
  \<^verbatim>\<open>sys.executable = '/usr/bin/python3'\<close>.
\<close>

definition idle_process :: process where
  "idle_process =
     \<lparr>cmdline = Inr [], create_time = Inr 0, usage = Inr (12.5, 52428800),
      exits_at = None, signal_fault = None, ignores_term = False\<rparr>"

definition empty_os :: "(nat \<Rightarrow> spawn_outcome) \<Rightarrow> os" where
  "empty_os oracle =
     \<lparr>procs = Map.empty, pid_files = Map.empty, connections = Inr [], clock = 0,
      spawn_count = 0, spawn_oracle = oracle, logged = []\<rparr>"

definition healthy_os :: os where
  "healthy_os = empty_os (\<lambda>k. Spawn_ok (4242 + int k) idle_process)"

definition crashing_os :: os where
  "crashing_os = empty_os (\<lambda>k. Spawn_ok (4242 + int k) (idle_process\<lparr>exits_at := Some 1\<rparr>))"

definition mortal_os :: os where
  "mortal_os = empty_os (\<lambda>k. Spawn_ok (4242 + int k) (idle_process\<lparr>exits_at := Some 60\<rparr>))"

definition failing_os :: os where
  "failing_os = empty_os (\<lambda>k. Spawn_fails OSError)"

definition boot :: "os \<Rightarrow> ServiceManager \<times> os" where
  "boot w = init ''/usr/bin/python3'' ''logs'' ''linux'' w"

text \<open>An operating system in which something already listens on port 1025.\<close>

definition busy_os :: os where
  "busy_os = healthy_os\<lparr>connections := Inr [(22, LISTEN), (1025, LISTEN), (5000, ESTABLISHED)]\<rparr>"

section \<open>What the operations leave alone, and what holds in every run\<close>

lemma pid_files_logger [simp]: "pid_files (logger w e) = pid_files w"
  by (simp add: logger_def)

lemma pid_files_sleep [simp]: "pid_files (sleep d w) = pid_files w"
  by (simp add: sleep_def)

lemma pid_files_remove_pid [simp]: "pid_files (remove_pid w n) = (pid_files w)(n := None)"
  by (simp add: remove_pid_def)

lemma pid_files_save_pid [simp]: "pid_files (save_pid w n p) = (pid_files w)(n \<mapsto> Pid_text p)"
  by (simp add: save_pid_def)

lemma pid_files_Popen [simp]: "pid_files (snd (Popen w argv)) = pid_files w"
  by (simp add: Popen_def Let_def split: spawn_outcome.splits)

lemma Popen_positive: "fst (Popen w argv) = Inr p \<Longrightarrow> 0 < p"
  by (simp add: Popen_def Let_def split: spawn_outcome.splits if_splits)

lemma proc_kill_pid_files: "proc_kill w h = Inr w' \<Longrightarrow> pid_files w' = pid_files w"
  by (auto simp: proc_kill_def split: option.splits if_splits)

lemma proc_terminate_pid_files: "proc_terminate w h = Inr w' \<Longrightarrow> pid_files w' = pid_files w"
  by (auto simp: proc_terminate_def split: option.splits if_splits)

lemma pid_files_proc_wait [simp]: "pid_files (snd (proc_wait w h t)) = pid_files w"
  by (simp add: proc_wait_def)

lemma pid_files_signal_process [simp]:
  "pid_files (snd (signal_process m w n p force)) = pid_files w"
  by (auto simp: signal_process_def Let_def case_prod_beta
      dest!: proc_kill_pid_files proc_terminate_pid_files
      split: sum.splits bool.splits)

lemma services_set_service [simp]:
  "services (set_service m n s) = (services m)(n \<mapsto> s)"
  by (simp add: set_service_def)

lemma start_service_files:
  "k \<noteq> n \<Longrightarrow> pid_files (snd (snd (start_service m w n bg))) k = pid_files w k"
  by (simp add: start_service_def Let_def case_prod_beta split: option.splits sum.splits)

lemma start_service_services:
  "k \<noteq> n \<Longrightarrow> services (fst (snd (start_service m w n bg))) k = services m k"
  by (simp add: start_service_def Let_def case_prod_beta split: option.splits sum.splits)

lemma start_service_dom:
  "(services (fst (snd (start_service m w n bg))) n = None) = (services m n = None)"
  by (simp add: start_service_def Let_def case_prod_beta split: option.splits sum.splits)

lemma start_service_ok_at:
  "ok_at m w n \<Longrightarrow> ok_at (fst (snd (start_service m w n bg))) (snd (snd (start_service m w n bg))) n"
  by (auto simp: ok_at_def start_service_def Let_def case_prod_beta
      dest: Popen_positive split: option.splits sum.splits)

lemma stop_service_files:
  "k \<noteq> n \<Longrightarrow> pid_files (snd (snd (stop_service m w n f))) k = pid_files w k"
  by (simp add: stop_service_def Let_def case_prod_beta split: option.splits exn.splits)

lemma stop_service_services:
  "k \<noteq> n \<Longrightarrow> services (fst (snd (stop_service m w n f))) k = services m k"
  by (simp add: stop_service_def Let_def case_prod_beta split: option.splits exn.splits)

lemma stop_service_dom:
  "(services (fst (snd (stop_service m w n f))) n = None) = (services m n = None)"
  by (simp add: stop_service_def Let_def case_prod_beta split: option.splits exn.splits)

lemma stop_service_ok_at:
  "ok_at m w n \<Longrightarrow> ok_at (fst (snd (stop_service m w n f))) (snd (snd (stop_service m w n f))) n"
  by (auto simp: ok_at_def stop_service_def Let_def case_prod_beta
      split: option.splits exn.splits)


lemma services_update_service_stats:
  "k \<noteq> n \<Longrightarrow> services (update_service_stats m w n) k = services m k"
  by (simp add: update_service_stats_def Let_def split: option.splits sum.splits prod.splits)

lemma update_service_stats_at:
  "services m n = Some s \<Longrightarrow>
     \<exists>c r. services (update_service_stats m w n) n = Some (s\<lparr>cpu_percent := c, memory_mb := r\<rparr>)"
proof -
  assume a: "services m n = Some s"
  have triv: "s = s\<lparr>cpu_percent := cpu_percent s, memory_mb := memory_mb s\<rparr>" by simp
  show ?thesis
    using a
    apply (simp add: update_service_stats_def Let_def split: option.splits sum.splits prod.splits)
    apply (intro conjI impI allI)
    by (blast intro: triv)+
qed

lemma get_service_status_files:
  "k \<noteq> n \<Longrightarrow> pid_files (snd (snd (get_service_status m w n))) k = pid_files w k"
  by (simp add: get_service_status_def Let_def split: option.splits)

lemma get_service_status_services:
  "k \<noteq> n \<Longrightarrow> services (fst (snd (get_service_status m w n))) k = services m k"
  by (simp add: get_service_status_def Let_def services_update_service_stats split: option.splits)

lemma get_service_status_dom:
  "(services (fst (snd (get_service_status m w n))) n = None) = (services m n = None)"
proof (cases "services m n")
  case None
  then show ?thesis by (simp add: get_service_status_def)
next
  case (Some s)
  from update_service_stats_at [OF Some, of w] Some show ?thesis
    by (auto simp: get_service_status_def Let_def split: option.splits)
qed

lemma get_service_status_ok_at:
  assumes "ok_at m w n"
  shows "ok_at (fst (snd (get_service_status m w n))) (snd (snd (get_service_status m w n))) n"
proof (cases "services m n")
  case None
  then show ?thesis by (simp add: get_service_status_def ok_at_def)
next
  case (Some s)
  from update_service_stats_at [OF Some, of w] obtain c r
    where u: "services (update_service_stats m w n) n = Some (s\<lparr>cpu_percent := c, memory_mb := r\<rparr>)"
    by blast
  from assms Some u show ?thesis
    by (auto simp: get_service_status_def Let_def ok_at_def split: option.splits)
qed

lemma load_pid_files:
  "k \<noteq> n \<Longrightarrow> pid_files (snd (load_pid m w n)) k = pid_files w k"
  by (simp add: load_pid_def Let_def split: option.splits pid_file.splits sum.splits)

lemma load_pid_services:
  "k \<noteq> n \<Longrightarrow> services (fst (load_pid m w n)) k = services m k"
  by (simp add: load_pid_def Let_def split: option.splits pid_file.splits sum.splits)

lemma load_pid_dom:
  "(services (fst (load_pid m w n)) n = None) = (services m n = None)"
  by (simp add: load_pid_def Let_def split: option.splits pid_file.splits sum.splits)

lemma load_pid_ok_at:
  "services m n = Some s \<Longrightarrow> status s = Stopped \<Longrightarrow> pid s = None \<Longrightarrow> port s \<noteq> Some 0 \<Longrightarrow>
     ok_at (fst (load_pid m w n)) (snd (load_pid m w n)) n"
  by (auto simp: load_pid_def Let_def ok_at_def pid_exists_def
      split: option.splits pid_file.splits sum.splits)

lemma ok_at_cong:
  "services m' n = services m n \<Longrightarrow> pid_files w' n = pid_files w n \<Longrightarrow> ok_at m' w' n = ok_at m w n"
  by (simp add: ok_at_def split: option.splits)

lemma ok_at_None: "services m n = None \<Longrightarrow> ok_at m w n"
  by (simp add: ok_at_def)

lemma consistent_step:
  assumes c: "consistent m w"
    and files: "\<And>k. k \<noteq> n \<Longrightarrow> pid_files w' k = pid_files w k"
    and servs: "\<And>k. k \<noteq> n \<Longrightarrow> services m' k = services m k"
    and dom: "(services m' n = None) = (services m n = None)"
    and at: "ok_at m w n \<Longrightarrow> ok_at m' w' n"
  shows "consistent m' w'"
proof -
  have d: "dom (services m') = dom (services m)"
  proof (rule set_eqI)
    fix k show "(k \<in> dom (services m')) = (k \<in> dom (services m))"
      using servs [of k] dom by (cases "k = n") (auto simp: dom_def)
  qed
  have "ok_at m' w' k" for k
  proof (cases "k = n")
    case True
    with c at show ?thesis by (simp add: consistent_def)
  next
    case False
    with c ok_at_cong [OF servs [OF False] files [OF False]] show ?thesis
      by (simp add: consistent_def)
  qed
  with c d show ?thesis by (simp add: consistent_def)
qed

lemma start_service_consistent:
  assumes "consistent m w" and "start_service m w n bg = (ok, m', w')"
  shows "consistent m' w'"
  using consistent_step [OF assms(1), of n w' m']
    start_service_files [of _ n m w bg] start_service_services [of _ n m w bg]
    start_service_dom [of m w n bg] start_service_ok_at [of m w n bg] assms(2)
  by simp

lemma stop_service_consistent:
  assumes "consistent m w" and "stop_service m w n f = (ok, m', w')"
  shows "consistent m' w'"
  using consistent_step [OF assms(1), of n w' m']
    stop_service_files [of _ n m w f] stop_service_services [of _ n m w f]
    stop_service_dom [of m w n f] stop_service_ok_at [of m w n f] assms(2)
  by simp

lemma get_service_status_consistent:
  assumes "consistent m w" and "get_service_status m w n = (r, m', w')"
  shows "consistent m' w'"
  using consistent_step [OF assms(1), of n w' m']
    get_service_status_files [of _ n m w] get_service_status_services [of _ n m w]
    get_service_status_dom [of m w n] get_service_status_ok_at [of m w n] assms(2)
  by simp

lemma new_services_dom: "dom (new_services e l) = set service_order"
  by (auto simp: new_services_def service_order_def)

lemma init_consistent:
  assumes "init e l sy w = (m, w')"
  shows "consistent m w'"
proof -
  define m0 where "m0 = \<lparr>services = new_services e l, system = sy\<rparr>"
  define a where "a = ''smtp_server''"
  define b where "b = ''web_interface''"
  have ab: "a \<noteq> b" by (simp add: a_def b_def)
  define m1 where "m1 = fst (load_pid m0 w a)"
  define w1 where "w1 = snd (load_pid m0 w a)"
  have res: "m = fst (load_pid m1 w1 b)" "w' = snd (load_pid m1 w1 b)"
    using assms
    by (simp_all add: init_def load_pids_def service_order_def m0_def m1_def w1_def a_def b_def
        case_prod_beta)
  obtain sa where sa: "services m0 a = Some sa" "status sa = Stopped" "pid sa = None"
    "port sa \<noteq> Some 0"
    by (simp add: m0_def new_services_def a_def)
  obtain sb where sb: "services m0 b = Some sb" "status sb = Stopped" "pid sb = None"
    "port sb \<noteq> Some 0"
    by (simp add: m0_def new_services_def b_def)
  have oka1: "ok_at m1 w1 a"
    unfolding m1_def w1_def using sa by (rule load_pid_ok_at)
  have sb1: "services m1 b = Some sb"
    unfolding m1_def using load_pid_services [of b a m0 w] ab sb by simp
  have okb: "ok_at m w' b"
    unfolding res using sb1 sb(2,3,4) by (rule load_pid_ok_at)
  have oka: "ok_at m w' a"
    using oka1 ok_at_cong [of m a m1 w' w1] load_pid_services [of a b m1 w1]
      load_pid_files [of a b m1 w1] ab res by simp
  have frame: "services m k = services m0 k" if "k \<noteq> a" "k \<noteq> b" for k
    using that load_pid_services [of k b m1 w1] load_pid_services [of k a m0 w]
    by (simp add: res m1_def)
  have da: "services m a \<noteq> None"
    using load_pid_services [of a b m1 w1] load_pid_dom [of m0 w a] sa ab
    by (simp add: res m1_def)
  have db: "services m b \<noteq> None"
    using load_pid_dom [of m1 w1 b] sb1 by (simp add: res)
  have d0: "\<And>k. (services m0 k = None) = (k \<noteq> a \<and> k \<noteq> b)"
    by (simp add: m0_def new_services_def a_def b_def)
  have dm: "dom (services m) = set service_order"
  proof (rule set_eqI)
    fix k
    have so: "set service_order = {a, b}" by (simp add: service_order_def a_def b_def)
    show "(k \<in> dom (services m)) = (k \<in> set service_order)"
    proof (cases "k = a \<or> k = b")
      case True
      with da db so show ?thesis by (auto simp: dom_def)
    next
      case False
      then have "services m k = None" using frame [of k] d0 [of k] by simp
      with False so show ?thesis by (simp add: dom_def)
    qed
  qed
  have "ok_at m w' k" for k
  proof -
    consider "k = a" | "k = b" | "k \<noteq> a" "k \<noteq> b" by blast
    then show ?thesis
    proof cases
      case 1 with oka show ?thesis by simp
    next
      case 2 with okb show ?thesis by simp
    next
      case 3
      then have "services m k = None" using frame d0 by simp
      then show ?thesis by (rule ok_at_None)
    qed
  qed
  with dm show ?thesis by (simp add: consistent_def)
qed

lemma reachable_consistent: "reachable c \<Longrightarrow> consistent (fst c) (snd c)"
proof (induction rule: reachable.induct)
  case (startup executable logs_dir sys w m w')
  then show ?case by (simp add: init_consistent)
next
  case (start m w n background ok m' w')
  then show ?case by (simp add: start_service_consistent)
next
  case (stop m w n force ok m' w')
  then show ?case by (simp add: stop_service_consistent)
next
  case (query m w n r m' w')
  then show ?case by (simp add: get_service_status_consistent)
next
  case (environment m w w')
  then show ?case using ok_at_cong [of m _ m w' w] by (simp add: consistent_def)
qed

lemma alive_logger [simp]: "alive (logger w e) p = alive w p"
  by (simp add: logger_def alive_def split: option.splits)

lemma pid_exists_logger [simp]: "pid_exists (logger w e) p = pid_exists w p"
  by (simp add: pid_exists_def)

lemma reachable_services:
  assumes "reachable (m, w)"
  shows "(services m n = None) = (n \<noteq> ''smtp_server'' \<and> n \<noteq> ''web_interface'')"
proof -
  from reachable_consistent [OF assms] have "dom (services m) = set service_order"
    by (simp add: consistent_def)
  then have "(n \<in> dom (services m)) = (n \<in> set service_order)" by simp
  then show ?thesis by (auto simp: service_order_def dom_def)
qed

lemma reachable_ok_at:
  assumes "reachable (m, w)" and "services m n = Some s"
  shows "(status s = Stopped \<longrightarrow> pid_files w n = None) \<and> (\<forall>p. pid s = Some p \<longrightarrow> 0 < p)
    \<and> port s \<noteq> Some 0"
  using reachable_consistent [OF assms(1)] assms(2)
  by (auto simp: consistent_def ok_at_def split: option.splits dest!: spec [of _ n])

text \<open>
  \<^verbatim>\<open>restart_service\<close>, \<^verbatim>\<open>start_all\<close> and \<^verbatim>\<open>stop_all\<close> are made of the calls and of the
  waits that a run already has, so they lead from a configuration of a run to one.
\<close>

lemma reachable_logger: "reachable (m, w) \<Longrightarrow> reachable (m, logger w e)"
  by (rule reachable.environment) simp_all

lemma reachable_sleep: "reachable (m, w) \<Longrightarrow> reachable (m, sleep d w)"
  by (rule reachable.environment) simp_all

lemma reachable_restart_service:
  assumes "reachable (m, w)" and "restart_service m w n = (ok, m', w')"
  shows "reachable (m', w')"
proof -
  obtain ok1 m1 w1 where
    s: "stop_service m (logger w (Restarting_service n)) n False = (ok1, m1, w1)"
    by (cases "stop_service m (logger w (Restarting_service n)) n False")
  from reachable.stop [OF reachable_logger [OF assms(1)] s] have r1: "reachable (m1, w1)" .
  show ?thesis
  proof (cases ok1)
    case False
    with assms(2) s r1 show ?thesis by (simp add: restart_service_def)
  next
    case True
    with assms(2) s have "start_service m1 (sleep 2 w1) n True = (ok, m', w')"
      by (simp add: restart_service_def)
    from reachable.start [OF reachable_sleep [OF r1] this] show ?thesis .
  qed
qed

lemma reachable_start_all:
  assumes "reachable (m, w)" and "start_all m w = (ok, m', w')"
  shows "reachable (m', w')"
proof -
  obtain ok1 m1 w1 where
    s1: "start_service m (logger w Starting_all) ''smtp_server'' True = (ok1, m1, w1)"
    by (cases "start_service m (logger w Starting_all) ''smtp_server'' True")
  obtain ok2 m2 w2 where
    s2: "start_service m1 (sleep 3 w1) ''web_interface'' True = (ok2, m2, w2)"
    by (cases "start_service m1 (sleep 3 w1) ''web_interface'' True")
  from reachable.start [OF reachable_logger [OF assms(1)] s1] have "reachable (m1, w1)" .
  from reachable.start [OF reachable_sleep [OF this] s2] have "reachable (m2, w2)" .
  with assms(2) s1 s2 show ?thesis by (simp add: start_all_def)
qed

lemma reachable_stop_all:
  assumes "reachable (m, w)" and "stop_all m w force = (ok, m', w')"
  shows "reachable (m', w')"
proof -
  obtain ok1 m1 w1 where
    s1: "stop_service m (logger w Stopping_all) ''web_interface'' force = (ok1, m1, w1)"
    by (cases "stop_service m (logger w Stopping_all) ''web_interface'' force")
  obtain ok2 m2 w2 where
    s2: "stop_service m1 w1 ''smtp_server'' force = (ok2, m2, w2)"
    by (cases "stop_service m1 w1 ''smtp_server'' force")
  from reachable.stop [OF reachable_logger [OF assms(1)] s1] have "reachable (m1, w1)" .
  from reachable.stop [OF this s2] have "reachable (m2, w2)" .
  with assms(2) s1 s2 show ?thesis by (simp add: stop_all_def)
qed

lemma is_port_in_use_readable:
  "connections w = Inr conns \<Longrightarrow> is_port_in_use w pt = Inr ((pt, LISTEN) \<in> set conns)"
  by (force simp: is_port_in_use_def list_ex_iff)

lemma port_conflicts_from_set:
  assumes "connections w = Inr conns"
  shows "\<exists>cs. port_conflicts_from ns m w acc = Inr cs
           \<and> set cs = set acc \<union> {(k, pt). k \<in> set ns \<and> conflict_at m conns k pt}"
proof (induction ns arbitrary: acc)
  case Nil
  show ?case by simp
next
  case (Cons k ns)
  show ?case
  proof (cases "services m k")
    case None
    with Cons [of acc] show ?thesis by (auto simp: conflict_at_def)
  next
    case (Some s)
    show ?thesis
    proof (cases "port s")
      case None
      with Some Cons [of acc] show ?thesis by (auto simp: conflict_at_def)
    next
      case (Some pt)
      note pt = this
      have step: "port_conflicts_from (k # ns) m w acc =
          (if pt \<noteq> 0 \<and> (pt, LISTEN) \<in> set conns \<and> status s \<noteq> Running
           then port_conflicts_from ns m w (acc @ [(k, pt)])
           else port_conflicts_from ns m w acc)"
        using \<open>services m k = Some s\<close> pt is_port_in_use_readable [OF assms, of pt]
        by (simp split: bool.splits)
      show ?thesis
      proof (cases "pt \<noteq> 0 \<and> (pt, LISTEN) \<in> set conns \<and> status s \<noteq> Running")
        case True
        from Cons [of "acc @ [(k, pt)]"] obtain cs where
          cs: "port_conflicts_from ns m w (acc @ [(k, pt)]) = Inr cs"
          "set cs = set (acc @ [(k, pt)]) \<union> {(k, pt). k \<in> set ns \<and> conflict_at m conns k pt}"
          by blast
        have "conflict_at m conns k q = (q = pt)" for q
          using True \<open>services m k = Some s\<close> pt by (auto simp: conflict_at_def)
        then have "{(j, q). j \<in> set (k # ns) \<and> conflict_at m conns j q}
            = insert (k, pt) {(j, q). j \<in> set ns \<and> conflict_at m conns j q}"
          by auto
        with cs step True show ?thesis by simp
      next
        case False
        from Cons [of acc] obtain cs where
          cs: "port_conflicts_from ns m w acc = Inr cs"
          "set cs = set acc \<union> {(k, pt). k \<in> set ns \<and> conflict_at m conns k pt}"
          by blast
        have "\<not> conflict_at m conns k q" for q
          using False \<open>services m k = Some s\<close> pt by (auto simp: conflict_at_def)
        then have "{(j, q). j \<in> set (k # ns) \<and> conflict_at m conns j q}
            = {(j, q). j \<in> set ns \<and> conflict_at m conns j q}"
          by auto
        with cs step False show ?thesis by simp
      qed
    qed
  qed
qed

lemma extends_trans:
  "extends n w w1 l1 \<Longrightarrow> extends n w1 w2 l2 \<Longrightarrow> extends n w w2 (l1 @ l2)"
  by (fastforce simp: extends_def)

lemma extends_logger: "about e = Some n \<Longrightarrow> extends n w (logger w e) [(clock w, e)]"
  by (simp add: extends_def logger_def)

lemma extends_quiet: "logged w' = logged w \<Longrightarrow> clock w \<le> clock w' \<Longrightarrow> extends n w w' []"
  by (simp add: extends_def)

lemma extends_then_logger:
  "extends n w w' l \<Longrightarrow> about e = Some n \<Longrightarrow> extends n w (logger w' e) (l @ [(clock w', e)])"
  using extends_trans [OF _ extends_logger] by blast

lemma Popen_quiet: "extends n w (snd (Popen w argv)) []"
  by (simp add: extends_def Popen_def Let_def split: spawn_outcome.splits)

lemma sleep_quiet: "0 \<le> d \<Longrightarrow> extends n w (sleep d w) []"
  by (simp add: extends_def sleep_def)

lemma save_pid_quiet: "extends n w (save_pid w k p) []"
  by (simp add: extends_def save_pid_def)

lemma remove_pid_quiet: "extends n w (remove_pid w k) []"
  by (simp add: extends_def remove_pid_def)

lemma proc_kill_quiet: "proc_kill w h = Inr w' \<Longrightarrow> extends n w w' []"
  by (auto simp: extends_def proc_kill_def split: option.splits if_splits)

lemma proc_terminate_quiet: "proc_terminate w h = Inr w' \<Longrightarrow> extends n w w' []"
  by (auto simp: extends_def proc_terminate_def split: option.splits if_splits)

lemma proc_wait_quiet: "0 \<le> t \<Longrightarrow> extends n w (snd (proc_wait w h t)) []"
  by (simp add: extends_def proc_wait_def sleep_def)

lemma extends_nil_trans:
  "extends n w w1 [] \<Longrightarrow> extends n w1 w2 l \<Longrightarrow> extends n w w2 l"
  using extends_trans [of n w w1 "[]" w2 l] by simp

lemma extends_trans_nil:
  "extends n w w1 l \<Longrightarrow> extends n w1 w2 [] \<Longrightarrow> extends n w w2 l"
  using extends_trans [of n w w1 l w2 "[]"] by simp

lemma start_service_extends:
  "\<exists>l. l \<noteq> [] \<and> extends n w (snd (snd (start_service m w n bg))) l"
proof (cases "services m n")
  case None
  then show ?thesis
    using extends_logger [of "Unknown_service n" n w] by (auto simp: start_service_def)
next
  case (Some s)
  show ?thesis
  proof (cases "status s = Running \<and> (case pid s of None \<Rightarrow> False | Some p \<Rightarrow> p \<noteq> 0 \<and> pid_exists w p)")
    case True
    with Some show ?thesis
      using extends_logger [of "Already_running n (case pid s of Some p \<Rightarrow> p | None \<Rightarrow> 0)" n w]
      by (auto simp: start_service_def)
  next
    case False
    define w1 where "w1 = logger w (Starting_service n)"
    define w2 where "w2 = snd (Popen w1 (str_split (command s)))"
    have e2: "extends n w w2 [(clock w, Starting_service n)]"
      unfolding w1_def w2_def
      using extends_trans_nil [OF extends_logger Popen_quiet] by simp
    show ?thesis
    proof (cases "fst (Popen w1 (str_split (command s)))")
      case (Inl e)
      have "snd (snd (start_service m w n bg)) = logger w2 (Start_exception n e)"
        using Some False Inl
        by (auto simp: start_service_def Let_def case_prod_beta w1_def w2_def split: option.splits)
      with extends_then_logger [OF e2, of "Start_exception n e"] show ?thesis by auto
    next
      case (Inr p)
      define w4 where "w4 = sleep 2 (save_pid w2 n p)"
      have e4: "extends n w w4 [(clock w, Starting_service n)]"
        unfolding w4_def
        using extends_trans_nil [OF extends_trans_nil [OF e2 save_pid_quiet] sleep_quiet]
        by simp
      have "snd (snd (start_service m w n bg)) = logger w4 (Failed_to_start n)
          \<or> snd (snd (start_service m w n bg)) = logger w4 (Started_ok n p)"
        using Some False Inr
        by (auto simp: start_service_def Let_def case_prod_beta w1_def w2_def w4_def
            split: option.splits)
      with extends_then_logger [OF e4, of "Failed_to_start n"]
        extends_then_logger [OF e4, of "Started_ok n p"]
      show ?thesis by auto
    qed
  qed
qed

lemma signal_process_extends:
  "\<exists>l. extends n w (snd (signal_process m w n p force)) l"
proof (cases "Process w p")
  case (Inl e)
  then show ?thesis using extends_quiet [of w w n] by (auto simp: signal_process_def)
next
  case (Inr h)
  show ?thesis
  proof (cases force)
    case True
    show ?thesis
    proof (cases "proc_kill w h")
      case (Inl e)
      with True Inr show ?thesis using extends_quiet [of w w n] by (auto simp: signal_process_def)
    next
      case (Inr w1)
      with True \<open>Process w p = Inr h\<close>
      have "snd (signal_process m w n p force) = logger w1 (Force_killed n)"
        by (simp add: signal_process_def)
      with extends_then_logger [OF proc_kill_quiet [OF Inr], of "Force_killed n" n]
      show ?thesis by auto
    qed
  next
    case False
    show ?thesis
    proof (cases "proc_terminate w h")
      case (Inl e)
      with False Inr show ?thesis using extends_quiet [of w w n] by (auto simp: signal_process_def)
    next
      case (Inr w1)
      define w2 where "w2 = snd (proc_wait w1 h 10)"
      have e2: "extends n w w2 []"
        unfolding w2_def
        using extends_trans_nil [OF proc_terminate_quiet [OF Inr] proc_wait_quiet] by simp
      show ?thesis
      proof (cases "fst (proc_wait w1 h 10)")
        case True
        with False Inr \<open>Process w p = Inr h\<close>
        have "snd (signal_process m w n p force) = w2"
          by (simp add: signal_process_def w2_def case_prod_beta)
        with e2 show ?thesis by auto
      next
        case nw: False
        define w3 where "w3 = logger w2 (Not_graceful n)"
        have e3: "extends n w w3 [(clock w2, Not_graceful n)]"
          unfolding w3_def using extends_then_logger [OF e2, of "Not_graceful n"] by simp
        show ?thesis
        proof (cases "proc_kill w3 h")
          case (Inl e)
          with nw False Inr \<open>Process w p = Inr h\<close>
          have "snd (signal_process m w n p force) = w3"
            by (simp add: signal_process_def w2_def w3_def case_prod_beta Let_def)
          with e3 show ?thesis by auto
        next
          case k: (Inr w4)
          with nw False Inr \<open>Process w p = Inr h\<close>
          have "snd (signal_process m w n p force) = w4"
            by (simp add: signal_process_def w2_def w3_def case_prod_beta Let_def)
          with extends_trans_nil [OF e3 proc_kill_quiet [OF k]] show ?thesis by auto
        qed
      qed
    qed
  qed
qed


lemma stop_service_extends:
  "\<exists>l. l \<noteq> [] \<and> extends n w (snd (snd (stop_service m w n force))) l"
proof (cases "services m n")
  case None
  then show ?thesis
    using extends_logger [of "Unknown_service n" n w] by (auto simp: stop_service_def)
next
  case (Some s)
  show ?thesis
  proof (cases "pid s = None \<or> status s = Stopped \<or> pid s = Some 0")
    case True
    with Some have "snd (snd (stop_service m w n force)) = logger w (Already_stopped n)"
      by (auto simp: stop_service_def split: option.splits)
    with extends_logger [of "Already_stopped n" n w] show ?thesis by auto
  next
    case False
    then obtain p where p: "pid s = Some p" "p \<noteq> 0" "status s \<noteq> Stopped" by auto
    define w1 where "w1 = logger w (Stopping_service n)"
    have e1: "extends n w w1 [(clock w, Stopping_service n)]"
      unfolding w1_def by (simp add: extends_logger)
    show ?thesis
    proof (cases "pid_exists w1 p")
      case False
      with Some p have "snd (snd (stop_service m w n force)) = remove_pid w1 n"
        by (simp add: stop_service_def Let_def w1_def)
      with extends_trans_nil [OF e1 remove_pid_quiet] show ?thesis by auto
    next
      case True
      define w2 where "w2 = snd (signal_process m w1 n p force)"
      from signal_process_extends [of n w1 m p force] obtain l2 where "extends n w1 w2 l2"
        unfolding w2_def by blast
      from extends_trans [OF e1 this] obtain l where e2: "extends n w w2 l" by blast
      have e3: "extends n w (remove_pid w2 n) l"
        using extends_trans_nil [OF e2 remove_pid_quiet] .
      have unf: "snd (snd (stop_service m w n force)) =
          (case fst (signal_process m w1 n p force) of
             None \<Rightarrow> logger (remove_pid w2 n) (Stopped_ok n)
           | Some (Psutil e) \<Rightarrow> logger (remove_pid w2 n) (Stop_gone n (Psutil e))
           | Some e \<Rightarrow> logger w2 (Stop_exception n e))"
        using Some p True
        by (simp add: stop_service_def Let_def w1_def w2_def case_prod_beta
            split: option.splits exn.splits)
      show ?thesis
      proof (cases "fst (signal_process m w1 n p force)")
        case None
        with unf extends_then_logger [OF e3, of "Stopped_ok n"] show ?thesis by auto
      next
        case (Some e)
        show ?thesis
        proof (cases "\<exists>x. e = Psutil x")
          case True
          then obtain x where "e = Psutil x" by blast
          with Some unf extends_then_logger [OF e3, of "Stop_gone n (Psutil x)"]
          show ?thesis by auto
        next
          case False
          with Some unf have "snd (snd (stop_service m w n force)) = logger w2 (Stop_exception n e)"
            by (cases e) simp_all
          with extends_then_logger [OF e2, of "Stop_exception n e"] show ?thesis by auto
        qed
      qed
    qed
  qed
qed

lemma workers_logger [simp]: "workers (logger w e) argv = workers w argv"
proof -
  have "proc_cmdline (logger w e) r = proc_cmdline w r" for r
    by (simp add: proc_cmdline_def logger_def)
  then show ?thesis by (simp add: workers_def)
qed

lemma Popen_Inr:
  assumes "Popen w argv = (Inr q, w')"
  shows "0 < q \<and> clock w' = clock w
       \<and> (\<exists>pr. procs w' = (procs w)(q \<mapsto> pr) \<and> cmdline pr = Inr argv)"
  using assms
  by (auto simp: Popen_def Let_def split: spawn_outcome.splits if_splits)

lemma start_service_noop:
  assumes "services m n = Some s" and "status s = Running" and "pid s = Some p"
    and "pid_exists w p"
  shows "start_service m w n background = (True, m, logger w (Already_running n p))"
  using assms by (auto simp: start_service_def pid_exists_def)

lemma start_service_True:
  assumes "start_service m w n background = (True, m1, w1)"
  shows "\<exists>s1 q. services m1 n = Some s1 \<and> status s1 = Running \<and> pid s1 = Some q
           \<and> pid_exists w1 q"
  using assms
  by (auto simp: start_service_def Let_def split: option.splits if_splits sum.splits prod.splits)

lemma start_service_spawned:
  assumes "services m n = Some s" and "status s \<noteq> Running"
    and "start_service m w n background = (True, m1, w1)"
  shows "\<exists>q pr. map_option pid (services m1 n) = Some (Some q)
           \<and> procs w1 = (procs w)(q \<mapsto> pr) \<and> cmdline pr = Inr (str_split (command s))
           \<and> clock w \<le> clock w1 \<and> alive w1 q"
proof -
  define w0 where "w0 = logger w (Starting_service n)"
  obtain r w2 where po: "Popen w0 (str_split (command s)) = (r, w2)"
    by (cases "Popen w0 (str_split (command s))")
  show ?thesis
  proof (cases r)
    case (Inl e)
    with assms po show ?thesis by (simp add: start_service_def Let_def w0_def)
  next
    case (Inr q)
    with po Popen_Inr [of w0 "str_split (command s)" q w2]
    obtain pr where pr: "clock w2 = clock w0" "procs w2 = (procs w0)(q \<mapsto> pr)"
      "cmdline pr = Inr (str_split (command s))" by auto
    define w4 where "w4 = sleep 2 (save_pid w2 n q)"
    from assms po Inr have ex: "pid_exists w4 q"
      by (auto simp: start_service_def Let_def w0_def w4_def split: if_splits)
    from assms po Inr ex have res: "w1 = logger w4 (Started_ok n q)"
      "map_option pid (services m1 n) = Some (Some q)"
      by (auto simp: start_service_def Let_def w0_def w4_def split: if_splits)
    have "procs w1 = (procs w)(q \<mapsto> pr)" "clock w \<le> clock w1"
      using pr by (simp_all add: res w4_def w0_def logger_def sleep_def save_pid_def)
    moreover from ex have "alive w1 q" by (simp add: res pid_exists_def)
    ultimately show ?thesis using res(2) pr(3) by blast
  qed
qed

lemma alive_earlier:
  "alive w' r \<Longrightarrow> procs w' r = procs w r \<Longrightarrow> clock w \<le> clock w' \<Longrightarrow> alive w r"
  by (auto simp: alive_def split: option.splits)

subsection \<open>Reconciliation, crashed launches and the pid invariant in general\<close>

text \<open>
  What \<^verbatim>\<open>_load_pids\<close> does with a PID file that holds a pid: the service becomes Running
  under that pid, with the creation time of the process as start time, when the process
  is alive and passes \<^verbatim>\<open>_is_our_process\<close>; otherwise the file is deleted and the service
  stays as it was.
\<close>

lemma load_pid_cases:
  assumes "services m n = Some s" and "pid_files w n = Some (Pid_text p)"
  shows "load_pid m w n =
     (if pid_exists w p \<and> is_our_process w p n
      then (case proc_create_time w p of
              Inr t \<Rightarrow> (set_service m n (s\<lparr>pid := Some p, status := Running,
                                              start_time := Some t\<rparr>), w)
            | Inl e \<Rightarrow> (set_service m n (s\<lparr>pid := Some p, status := Running\<rparr>),
                        remove_pid w n))
      else (m, remove_pid w n))"
  using assms by (simp add: load_pid_def Process_def Let_def split: sum.splits)

text \<open>
  Whenever the launched process is gone at the end of the grace period, \<^verbatim>\<open>start_service\<close>
  returns False and leaves the status Errored, the pid stored and the PID file in place.
\<close>

lemma start_service_crashed:
  assumes "services m n = Some s"
    and "Popen (logger w (Starting_service n)) (str_split (command s)) = (Inr p, w2)"
    and "\<not> pid_exists (sleep 2 (save_pid w2 n p)) p"
    and "status s \<noteq> Running"
  shows "\<exists>w'. start_service m w n background
           = (False, set_service m n (s\<lparr>pid := Some p, start_time := Some (clock w2),
                                          status := Errored\<rparr>), w')
         \<and> pid_files w' n = Some (Pid_text p)"
  using assms by (simp add: start_service_def Let_def)

text \<open>
  \<^verbatim>\<open>stop_service\<close> and \<^verbatim>\<open>get_service_status\<close> keep the pid invariant, and so does a
  \<^verbatim>\<open>start_service\<close> that returns True.
\<close>

lemma pid_invariant_kept:
  assumes "services m n = Some s" and "pid_invariant s"
  shows "(\<forall>s'. services (fst (snd (stop_service m w n force))) n = Some s' \<longrightarrow> pid_invariant s')
       \<and> (\<forall>s'. services (fst (snd (get_service_status m w n))) n = Some s' \<longrightarrow> pid_invariant s')
       \<and> (fst (start_service m w n background) \<longrightarrow>
            (\<forall>s'. services (fst (snd (start_service m w n background))) n = Some s'
               \<longrightarrow> pid_invariant s'))"
proof (intro conjI)
  show "\<forall>s'. services (fst (snd (stop_service m w n force))) n = Some s' \<longrightarrow> pid_invariant s'"
    using assms
    by (auto simp: stop_service_def Let_def case_prod_beta pid_invariant_def
        split: option.splits exn.splits)
next
  from update_service_stats_at [OF assms(1), of w] obtain c r where
    u: "services (update_service_stats m w n) n = Some (s\<lparr>cpu_percent := c, memory_mb := r\<rparr>)"
    by blast
  with assms
  show "\<forall>s'. services (fst (snd (get_service_status m w n))) n = Some s' \<longrightarrow> pid_invariant s'"
    by (auto simp: get_service_status_def Let_def pid_invariant_def split: option.splits)
next
  show "fst (start_service m w n background) \<longrightarrow>
            (\<forall>s'. services (fst (snd (start_service m w n background))) n = Some s'
               \<longrightarrow> pid_invariant s')"
    using assms
    by (auto simp: start_service_def Let_def case_prod_beta pid_invariant_def
        split: option.splits sum.splits if_splits)
qed

section \<open>Reconciliation at startup\<close>

text \<open>
  Claim C1. Reconciliation restores a service to Running only when the live process under
  the recorded pid matches the service's fingerprint, and a process launched from the
  service's own command must match. The fingerprint is the service name without
  underscores, \<^verbatim>\<open>smtpserver\<close>, looked for in the lower-cased command line, which for the
  service's own command is \<^verbatim>\<open>/usr/bin/python3 smtp_server.py\<close>: the underscore is still
  there, so the test fails. In the run below the supervisor starts the mail daemon, which
  stays alive, and a second supervisor is constructed over the same operating system: it
  finds the worker alive under the recorded pid with exactly the configured command line,
  classifies it as foreign, deletes the PID file and reports the service Stopped.
\<close>

theorem own_worker_not_recognised:
  "case boot healthy_os of (m0, w0) \<Rightarrow>
   case start_service m0 w0 ''smtp_server'' True of (ok, m1, w1) \<Rightarrow>
   case boot w1 of (m2, w2) \<Rightarrow>
     ok \<and> pid_files w1 ''smtp_server'' = Some (Pid_text 4242)
     \<and> pid_exists w1 4242
     \<and> Some (proc_cmdline w1 4242) = map_option (\<lambda>s. Inr (str_split (command s))) (services m1 ''smtp_server'')
     \<and> is_our_process w1 4242 ''smtp_server'' = False
     \<and> map_option status (services m2 ''smtp_server'') = Some Stopped
     \<and> map_option pid (services m2 ''smtp_server'') = Some None
     \<and> pid_files w2 ''smtp_server'' = None
     \<and> pid_exists w2 4242"
  by code_simp

section \<open>Launches that crash within the grace period\<close>

text \<open>
  Claim C2. When the launched process has exited by the end of the grace period, start
  reports failure, the status is Errored, and the PID record is cleared. The first two hold;
  the PID file written before the wait is never removed on this path. In the run below the
  worker exits one second after its launch: start returns False with status Errored, and
  the PID file still holds the pid of the dead process.
\<close>

theorem crashed_launch_keeps_pid_file:
  "case boot crashing_os of (m0, w0) \<Rightarrow>
   case start_service m0 w0 ''smtp_server'' True of (ok, m1, w1) \<Rightarrow>
     ok = False \<and> pid_exists w1 4242 = False
     \<and> map_option status (services m1 ''smtp_server'') = Some Errored
     \<and> pid_files w1 ''smtp_server'' = Some (Pid_text 4242)"
  by code_simp

section \<open>The pid invariant\<close>

text \<open>
  Claim C3. Every operation preserves the invariant that a pid is present exactly when
  the status is Starting, Running or Stopping. A launch that crashes within the grace
  period breaks it: the freshly constructed state satisfies the invariant, and after the
  failed start the status is Errored while the pid of the dead process is still stored.
\<close>

theorem crashed_launch_breaks_pid_invariant:
  "case boot crashing_os of (m0, w0) \<Rightarrow>
   case start_service m0 w0 ''smtp_server'' True of (ok, m1, w1) \<Rightarrow>
     map_option pid_invariant (services m0 ''smtp_server'') = Some True
     \<and> map_option status (services m1 ''smtp_server'') = Some Errored
     \<and> map_option pid (services m1 ''smtp_server'') = Some (Some 4242)
     \<and> map_option pid_invariant (services m1 ''smtp_server'') = Some False"
  by code_simp

section \<open>Status queries\<close>

text \<open>
  Claim C9. A status query on a service that is tracked as Running but whose process is
  gone resets the state to Stopped, clears pid and start time, removes the PID record and
  resets CPU and memory usage to zero. The branch that handles the vanished process
  leaves the two usage fields alone. In the run below the worker is started, a first query
  samples 12.5 percent CPU and 50 MB, the worker exits, and the second query reports
  Stopped with no pid, no start time and no PID file, but still 12.5 percent and 50 MB.
\<close>

theorem vanished_process_keeps_usage:
  "case boot mortal_os of (m0, w0) \<Rightarrow>
   case start_service m0 w0 ''smtp_server'' True of (ok, m1, w1) \<Rightarrow>
   case get_service_status m1 w1 ''smtp_server'' of (r2, m2, w2) \<Rightarrow>
   case get_service_status m2 (sleep 100 w2) ''smtp_server'' of (r3, m3, w3) \<Rightarrow>
     ok \<and> map_option status r2 = Some Running
     \<and> pid_exists (sleep 100 w2) 4242 = False
     \<and> map_option status r3 = Some Stopped
     \<and> map_option pid r3 = Some None
     \<and> map_option start_time r3 = Some None
     \<and> pid_files w3 ''smtp_server'' = None
     \<and> map_option cpu_percent r3 = Some 12.5
     \<and> map_option memory_mb r3 = Some 50
     \<and> services m3 ''smtp_server'' = r3"
  by code_simp

section \<open>Unknown services\<close>

text \<open>
  Claim C10. In every configuration of a run, for every service name other than
  \<^verbatim>\<open>smtp_server\<close> and \<^verbatim>\<open>web_interface\<close>, \<^verbatim>\<open>start_service\<close> and \<^verbatim>\<open>stop_service\<close> return
  False and leave the manager as it was, the operating system changes by one logged line
  only (so no PID file changes), and \<^verbatim>\<open>get_service_status\<close> returns None and changes
  nothing.
\<close>

theorem unknown_service_rejected:
  assumes "reachable (m, w)" and "n \<noteq> ''smtp_server''" and "n \<noteq> ''web_interface''"
  shows "start_service m w n background = (False, m, logger w (Unknown_service n))
       \<and> stop_service m w n force = (False, m, logger w (Unknown_service n))
       \<and> pid_files (logger w (Unknown_service n)) = pid_files w
       \<and> get_service_status m w n = (None, m, w)"
proof -
  from reachable_services [OF assms(1), of n] assms(2,3) have "services m n = None" by simp
  then show ?thesis
    by (simp add: start_service_def stop_service_def get_service_status_def)
qed

theorem unknown_service_rejected_witness:
  "case boot healthy_os of (m, w) \<Rightarrow>
     reachable (m, w)
     \<and> start_service m w ''dns_server'' True = (False, m, logger w (Unknown_service ''dns_server''))
     \<and> stop_service m w ''dns_server'' False = (False, m, logger w (Unknown_service ''dns_server''))
     \<and> pid_files (logger w (Unknown_service ''dns_server'')) = pid_files w
     \<and> get_service_status m w ''dns_server'' = (None, m, w)"
proof -
  obtain m w where b: "boot healthy_os = (m, w)" by (cases "boot healthy_os")
  then have r: "reachable (m, w)" unfolding boot_def by (rule reachable.startup)
  have d: "''dns_server'' \<noteq> ''smtp_server''" "''dns_server'' \<noteq> ''web_interface''" by simp_all
  from unknown_service_rejected [OF r d] r b show ?thesis by simp
qed

section \<open>Stopping what is already stopped\<close>

text \<open>
  Claim C5. In every configuration of a run, for a service that is Stopped, or whose
  stored pid is the pid of no live process, \<^verbatim>\<open>stop_service\<close> returns True and afterwards
  the service has no PID file; stopping it once more returns True again and there is still
  no PID file.
\<close>

theorem stop_service_idempotent:
  assumes "reachable (m, w)" and "services m n = Some s"
    and "status s = Stopped \<or> (\<exists>p. pid s = Some p \<and> \<not> pid_exists w p)"
  shows "\<exists>m' w'. stop_service m w n force = (True, m', w') \<and> pid_files w' n = None
           \<and> (\<exists>w''. stop_service m' w' n force = (True, m', w'') \<and> pid_files w'' n = None)"
proof -
  from reachable_ok_at [OF assms(1,2)]
  have inv: "status s = Stopped \<longrightarrow> pid_files w n = None" "\<forall>p. pid s = Some p \<longrightarrow> 0 < p"
    by simp_all
  show ?thesis
  proof (cases "status s = Stopped")
    case True
    with inv(1) assms(2) show ?thesis
      by (simp add: stop_service_def split: option.splits)
  next
    case False
    with assms(3) obtain p where p: "pid s = Some p" "\<not> pid_exists w p" by blast
    with inv(2) have "p \<noteq> 0" by auto
    with False p assms(2) show ?thesis
      by (simp add: stop_service_def Let_def)
  qed
qed

theorem stop_service_idempotent_witness:
  "case boot crashing_os of (m0, w0) \<Rightarrow>
   case start_service m0 w0 ''smtp_server'' True of (ok, m1, w1) \<Rightarrow>
     reachable (m1, w1)
     \<and> map_option status (services m1 ''smtp_server'') = Some Errored
     \<and> map_option pid (services m1 ''smtp_server'') = Some (Some 4242)
     \<and> pid_exists w1 4242 = False
     \<and> (\<exists>m' w'. stop_service m1 w1 ''smtp_server'' False = (True, m', w')
           \<and> pid_files w' ''smtp_server'' = None
           \<and> (\<exists>w''. stop_service m' w' ''smtp_server'' False = (True, m', w'')
                 \<and> pid_files w'' ''smtp_server'' = None))"
proof -
  obtain m0 w0 where b: "boot crashing_os = (m0, w0)" by (cases "boot crashing_os")
  obtain ok m1 w1 where st: "start_service m0 w0 ''smtp_server'' True = (ok, m1, w1)"
    by (cases "start_service m0 w0 ''smtp_server'' True")
  from b have "reachable (m0, w0)" unfolding boot_def by (rule reachable.startup)
  then have r: "reachable (m1, w1)" using st by (rule reachable.start)
  have "case boot crashing_os of (m0, w0) \<Rightarrow>
        case start_service m0 w0 ''smtp_server'' True of (ok, m1, w1) \<Rightarrow>
          map_option status (services m1 ''smtp_server'') = Some Errored
          \<and> map_option pid (services m1 ''smtp_server'') = Some (Some 4242)
          \<and> pid_exists w1 4242 = False"
    by code_simp
  with b st have f: "map_option status (services m1 ''smtp_server'') = Some Errored"
    "map_option pid (services m1 ''smtp_server'') = Some (Some 4242)"
    "\<not> pid_exists w1 4242" by simp_all
  then obtain s where s: "services m1 ''smtp_server'' = Some s" "pid s = Some 4242" by auto
  with f(3) have h: "status s = Stopped \<or> (\<exists>p. pid s = Some p \<and> \<not> pid_exists w1 p)" by simp
  from stop_service_idempotent [OF r s(1) h, of False] r f b st show ?thesis by simp
qed

section \<open>Port conflicts\<close>

text \<open>
  Claim C8. In every configuration of a run in which the socket table can be read, for
  every service with a configured port, \<^verbatim>\<open>get_port_conflicts\<close> reports the pair of the
  service name and its port exactly when the table has a listener on that port and the
  tracked status of the service is not Running.
\<close>

theorem port_conflict_reported_iff:
  assumes "reachable (m, w)" and "connections w = Inr conns"
    and "services m n = Some s" and "port s = Some pt"
  shows "\<exists>cs. get_port_conflicts m w = Inr cs
           \<and> ((n, pt) \<in> set cs) = ((pt, LISTEN) \<in> set conns \<and> status s \<noteq> Running)"
proof -
  from reachable_ok_at [OF assms(1,3)] assms(4) have nz: "pt \<noteq> 0" by auto
  from reachable_services [OF assms(1), of n] assms(3) have mem: "n \<in> set service_order"
    by (auto simp: service_order_def)
  from port_conflicts_from_set [OF assms(2), of service_order m "[]"]
  obtain cs where cs: "get_port_conflicts m w = Inr cs"
    "set cs = {(k, pt). k \<in> set service_order \<and> conflict_at m conns k pt}"
    by (auto simp: get_port_conflicts_def)
  from cs(2) mem nz assms(3,4)
  have "((n, pt) \<in> set cs) = ((pt, LISTEN) \<in> set conns \<and> status s \<noteq> Running)"
    by (simp add: conflict_at_def)
  with cs(1) show ?thesis by simp
qed

theorem port_conflict_reported_iff_witness:
  "case boot busy_os of (m, w) \<Rightarrow>
     reachable (m, w)
     \<and> connections w = Inr [(22, LISTEN), (1025, LISTEN), (5000, ESTABLISHED)]
     \<and> map_option port (services m ''smtp_server'') = Some (Some 1025)
     \<and> map_option status (services m ''smtp_server'') = Some Stopped
     \<and> (\<exists>cs. get_port_conflicts m w = Inr cs \<and> (''smtp_server'', 1025) \<in> set cs)"
proof -
  obtain m w where b: "boot busy_os = (m, w)" by (cases "boot busy_os")
  then have r: "reachable (m, w)" unfolding boot_def by (rule reachable.startup)
  have "case boot busy_os of (m, w) \<Rightarrow>
          connections w = Inr [(22, LISTEN), (1025, LISTEN), (5000, ESTABLISHED)]
          \<and> map_option port (services m ''smtp_server'') = Some (Some 1025)
          \<and> map_option status (services m ''smtp_server'') = Some Stopped"
    by code_simp
  with b have f: "connections w = Inr [(22, LISTEN), (1025, LISTEN), (5000, ESTABLISHED)]"
    "map_option port (services m ''smtp_server'') = Some (Some 1025)"
    "map_option status (services m ''smtp_server'') = Some Stopped" by simp_all
  then obtain s where s: "services m ''smtp_server'' = Some s" "port s = Some 1025"
    "status s = Stopped" by auto
  from port_conflict_reported_iff [OF r f(1) s(1,2)] s(3) r f b show ?thesis by simp
qed

section \<open>Starting and stopping all services\<close>

text \<open>
  Claim C7. \<^verbatim>\<open>start_all\<close> attempts the mail daemon first and the web front end second,
  whatever the first attempt returned, and after a settle delay: every line the first
  attempt logs is about \<^verbatim>\<open>smtp_server\<close>, every line the second logs is about
  \<^verbatim>\<open>web_interface\<close>, each attempt logs at least one line, and the lines of the second are
  stamped at least three seconds after the lines of the first. \<^verbatim>\<open>stop_all\<close> stops the
  web front end first and the mail daemon second. Each returns True exactly when both of
  its two calls returned True.
\<close>

theorem start_all_stop_all_order:
  "(\<exists>ok1 m1 w1 ok2 m2 w2 l1 l2.
       start_service m (logger w Starting_all) ''smtp_server'' True = (ok1, m1, w1)
     \<and> start_service m1 (sleep 3 w1) ''web_interface'' True = (ok2, m2, w2)
     \<and> start_all m w = (ok1 \<and> ok2, m2, w2)
     \<and> logged w2 = logged w @ [(clock w, Starting_all)] @ l1 @ l2
     \<and> l1 \<noteq> [] \<and> l2 \<noteq> []
     \<and> (\<forall>x \<in> set l1. about (snd x) = Some ''smtp_server'')
     \<and> (\<forall>y \<in> set l2. about (snd y) = Some ''web_interface'')
     \<and> (\<forall>x \<in> set l1. \<forall>y \<in> set l2. fst x + 3 \<le> fst y))
   \<and> (\<exists>ok1 m1 w1 ok2 m2 w2 l1 l2.
       stop_service m (logger w Stopping_all) ''web_interface'' force = (ok1, m1, w1)
     \<and> stop_service m1 w1 ''smtp_server'' force = (ok2, m2, w2)
     \<and> stop_all m w force = (ok1 \<and> ok2, m2, w2)
     \<and> logged w2 = logged w @ [(clock w, Stopping_all)] @ l1 @ l2
     \<and> l1 \<noteq> [] \<and> l2 \<noteq> []
     \<and> (\<forall>x \<in> set l1. about (snd x) = Some ''web_interface'')
     \<and> (\<forall>y \<in> set l2. about (snd y) = Some ''smtp_server'')
     \<and> (\<forall>x \<in> set l1. \<forall>y \<in> set l2. fst x \<le> fst y))"
proof (rule conjI)
  define w0 where "w0 = logger w Starting_all"
  obtain ok1 m1 w1 where s1: "start_service m w0 ''smtp_server'' True = (ok1, m1, w1)"
    by (cases "start_service m w0 ''smtp_server'' True")
  obtain ok2 m2 w2 where s2: "start_service m1 (sleep 3 w1) ''web_interface'' True = (ok2, m2, w2)"
    by (cases "start_service m1 (sleep 3 w1) ''web_interface'' True")
  from start_service_extends [of "''smtp_server''" w0 m True] s1
  obtain l1 where l1: "l1 \<noteq> []" "extends ''smtp_server'' w0 w1 l1" by auto
  from start_service_extends [of "''web_interface''" "sleep 3 w1" m1 True] s2
  obtain l2 where l2: "l2 \<noteq> []" "extends ''web_interface'' (sleep 3 w1) w2 l2" by auto
  have r: "start_all m w = (ok1 \<and> ok2, m2, w2)"
    using s1 s2 by (simp add: start_all_def w0_def)
  have lg: "logged w2 = logged w @ [(clock w, Starting_all)] @ l1 @ l2"
    using l1(2) l2(2) by (simp add: extends_def w0_def logger_def sleep_def)
  have ord: "\<forall>x \<in> set l1. \<forall>y \<in> set l2. fst x + 3 \<le> fst y"
    using l1(2) l2(2) by (fastforce simp: extends_def sleep_def)
  from l1 l2 have ab: "\<forall>x \<in> set l1. about (snd x) = Some ''smtp_server''"
    "\<forall>y \<in> set l2. about (snd y) = Some ''web_interface''"
    by (simp_all add: extends_def)
  show "\<exists>ok1 m1 w1 ok2 m2 w2 l1 l2.
       start_service m (logger w Starting_all) ''smtp_server'' True = (ok1, m1, w1)
     \<and> start_service m1 (sleep 3 w1) ''web_interface'' True = (ok2, m2, w2)
     \<and> start_all m w = (ok1 \<and> ok2, m2, w2)
     \<and> logged w2 = logged w @ [(clock w, Starting_all)] @ l1 @ l2
     \<and> l1 \<noteq> [] \<and> l2 \<noteq> []
     \<and> (\<forall>x \<in> set l1. about (snd x) = Some ''smtp_server'')
     \<and> (\<forall>y \<in> set l2. about (snd y) = Some ''web_interface'')
     \<and> (\<forall>x \<in> set l1. \<forall>y \<in> set l2. fst x + 3 \<le> fst y)"
    using s1 s2 r lg l1(1) l2(1) ab ord unfolding w0_def by blast
next
  define w0 where "w0 = logger w Stopping_all"
  obtain ok1 m1 w1 where s1: "stop_service m w0 ''web_interface'' force = (ok1, m1, w1)"
    by (cases "stop_service m w0 ''web_interface'' force")
  obtain ok2 m2 w2 where s2: "stop_service m1 w1 ''smtp_server'' force = (ok2, m2, w2)"
    by (cases "stop_service m1 w1 ''smtp_server'' force")
  from stop_service_extends [of "''web_interface''" w0 m force] s1
  obtain l1 where l1: "l1 \<noteq> []" "extends ''web_interface'' w0 w1 l1" by auto
  from stop_service_extends [of "''smtp_server''" w1 m1 force] s2
  obtain l2 where l2: "l2 \<noteq> []" "extends ''smtp_server'' w1 w2 l2" by auto
  have r: "stop_all m w force = (ok1 \<and> ok2, m2, w2)"
    using s1 s2 by (simp add: stop_all_def w0_def)
  have lg: "logged w2 = logged w @ [(clock w, Stopping_all)] @ l1 @ l2"
    using l1(2) l2(2) by (simp add: extends_def w0_def logger_def)
  have ord: "\<forall>x \<in> set l1. \<forall>y \<in> set l2. fst x \<le> fst y"
    using l1(2) l2(2) by (fastforce simp: extends_def)
  from l1 l2 have ab: "\<forall>x \<in> set l1. about (snd x) = Some ''web_interface''"
    "\<forall>y \<in> set l2. about (snd y) = Some ''smtp_server''"
    by (simp_all add: extends_def)
  show "\<exists>ok1 m1 w1 ok2 m2 w2 l1 l2.
       stop_service m (logger w Stopping_all) ''web_interface'' force = (ok1, m1, w1)
     \<and> stop_service m1 w1 ''smtp_server'' force = (ok2, m2, w2)
     \<and> stop_all m w force = (ok1 \<and> ok2, m2, w2)
     \<and> logged w2 = logged w @ [(clock w, Stopping_all)] @ l1 @ l2
     \<and> l1 \<noteq> [] \<and> l2 \<noteq> []
     \<and> (\<forall>x \<in> set l1. about (snd x) = Some ''web_interface'')
     \<and> (\<forall>y \<in> set l2. about (snd y) = Some ''smtp_server'')
     \<and> (\<forall>x \<in> set l1. \<forall>y \<in> set l2. fst x \<le> fst y)"
    using s1 s2 r lg l1(1) l2(1) ab ord unfolding w0_def by blast
qed

theorem start_all_stop_all_order_witness:
  "(case boot crashing_os of (m, w) \<Rightarrow>
    case start_all m w of (ok, m', w') \<Rightarrow>
      ok = False
      \<and> map fst (logged w') = [0, 0, 2, 5, 7]
      \<and> map (\<lambda>x. about (snd x)) (logged w')
          = [None, Some ''smtp_server'', Some ''smtp_server'',
             Some ''web_interface'', Some ''web_interface''])
   \<and> ((\<exists>ok1 m1 w1 ok2 m2 w2 l1 l2.
       start_service (fst (boot crashing_os)) (logger (snd (boot crashing_os)) Starting_all) ''smtp_server'' True = (ok1, m1, w1)
     \<and> start_service m1 (sleep 3 w1) ''web_interface'' True = (ok2, m2, w2)
     \<and> start_all (fst (boot crashing_os)) (snd (boot crashing_os)) = (ok1 \<and> ok2, m2, w2)
     \<and> logged w2 = logged (snd (boot crashing_os)) @ [(clock (snd (boot crashing_os)), Starting_all)] @ l1 @ l2
     \<and> l1 \<noteq> [] \<and> l2 \<noteq> []
     \<and> (\<forall>x \<in> set l1. about (snd x) = Some ''smtp_server'')
     \<and> (\<forall>y \<in> set l2. about (snd y) = Some ''web_interface'')
     \<and> (\<forall>x \<in> set l1. \<forall>y \<in> set l2. fst x + 3 \<le> fst y))
   \<and> (\<exists>ok1 m1 w1 ok2 m2 w2 l1 l2.
       stop_service (fst (boot crashing_os)) (logger (snd (boot crashing_os)) Stopping_all) ''web_interface'' False = (ok1, m1, w1)
     \<and> stop_service m1 w1 ''smtp_server'' False = (ok2, m2, w2)
     \<and> stop_all (fst (boot crashing_os)) (snd (boot crashing_os)) False = (ok1 \<and> ok2, m2, w2)
     \<and> logged w2 = logged (snd (boot crashing_os)) @ [(clock (snd (boot crashing_os)), Stopping_all)] @ l1 @ l2
     \<and> l1 \<noteq> [] \<and> l2 \<noteq> []
     \<and> (\<forall>x \<in> set l1. about (snd x) = Some ''web_interface'')
     \<and> (\<forall>y \<in> set l2. about (snd y) = Some ''smtp_server'')
     \<and> (\<forall>x \<in> set l1. \<forall>y \<in> set l2. fst x \<le> fst y)))"
proof (rule conjI)
  show "case boot crashing_os of (m, w) \<Rightarrow>
    case start_all m w of (ok, m', w') \<Rightarrow>
      ok = False
      \<and> map fst (logged w') = [0, 0, 2, 5, 7]
      \<and> map (\<lambda>x. about (snd x)) (logged w')
          = [None, Some ''smtp_server'', Some ''smtp_server'',
             Some ''web_interface'', Some ''web_interface'']"
    by code_simp
next
  show "(\<exists>ok1 m1 w1 ok2 m2 w2 l1 l2.
       start_service (fst (boot crashing_os)) (logger (snd (boot crashing_os)) Starting_all) ''smtp_server'' True = (ok1, m1, w1)
     \<and> start_service m1 (sleep 3 w1) ''web_interface'' True = (ok2, m2, w2)
     \<and> start_all (fst (boot crashing_os)) (snd (boot crashing_os)) = (ok1 \<and> ok2, m2, w2)
     \<and> logged w2 = logged (snd (boot crashing_os)) @ [(clock (snd (boot crashing_os)), Starting_all)] @ l1 @ l2
     \<and> l1 \<noteq> [] \<and> l2 \<noteq> []
     \<and> (\<forall>x \<in> set l1. about (snd x) = Some ''smtp_server'')
     \<and> (\<forall>y \<in> set l2. about (snd y) = Some ''web_interface'')
     \<and> (\<forall>x \<in> set l1. \<forall>y \<in> set l2. fst x + 3 \<le> fst y))
   \<and> (\<exists>ok1 m1 w1 ok2 m2 w2 l1 l2.
       stop_service (fst (boot crashing_os)) (logger (snd (boot crashing_os)) Stopping_all) ''web_interface'' False = (ok1, m1, w1)
     \<and> stop_service m1 w1 ''smtp_server'' False = (ok2, m2, w2)
     \<and> stop_all (fst (boot crashing_os)) (snd (boot crashing_os)) False = (ok1 \<and> ok2, m2, w2)
     \<and> logged w2 = logged (snd (boot crashing_os)) @ [(clock (snd (boot crashing_os)), Stopping_all)] @ l1 @ l2
     \<and> l1 \<noteq> [] \<and> l2 \<noteq> []
     \<and> (\<forall>x \<in> set l1. about (snd x) = Some ''web_interface'')
     \<and> (\<forall>y \<in> set l2. about (snd y) = Some ''smtp_server'')
     \<and> (\<forall>x \<in> set l1. \<forall>y \<in> set l2. fst x \<le> fst y))"
    by (rule start_all_stop_all_order)
qed

section \<open>Starting what is already running\<close>

text \<open>
  Claim C6. For a service that is Running under the pid of a live process,
  \<^verbatim>\<open>start_service\<close> returns True and changes nothing but the log: the manager is the
  same and no process is spawned. Hence, whenever a first call of \<^verbatim>\<open>start_service\<close>
  returns True, the service is tracked under a live pid and a second call right after it
  returns True as well and leaves manager, process table and spawn count as the first call
  left them; and when the service was not Running before and no live process had the
  service's command line, exactly one live process has it after the two calls, the
  tracked one.
\<close>

theorem start_service_idempotent:
  assumes "services m n = Some s"
  shows "(status s = Running \<and> pid s = Some p \<and> pid_exists w p
            \<longrightarrow> start_service m w n background = (True, m, logger w (Already_running n p)))
       \<and> (\<forall>m1 w1. start_service m w n background = (True, m1, w1) \<longrightarrow>
            (\<exists>q. map_option pid (services m1 n) = Some (Some q) \<and> pid_exists w1 q
               \<and> start_service m1 w1 n again = (True, m1, logger w1 (Already_running n q))
               \<and> (status s \<noteq> Running
                    \<and> (\<forall>r. alive w r \<longrightarrow> proc_cmdline w r \<noteq> Inr (str_split (command s)))
                  \<longrightarrow> workers (logger w1 (Already_running n q)) (str_split (command s)) = {q})))"
proof (intro conjI allI impI)
  assume "status s = Running \<and> pid s = Some p \<and> pid_exists w p"
  with assms show "start_service m w n background = (True, m, logger w (Already_running n p))"
    by (simp add: start_service_noop)
next
  fix m1 w1
  assume first: "start_service m w n background = (True, m1, w1)"
  from start_service_True [OF first] obtain s1 q where
    s1: "services m1 n = Some s1" "status s1 = Running" "pid s1 = Some q" "pid_exists w1 q"
    by blast
  have second: "start_service m1 w1 n again = (True, m1, logger w1 (Already_running n q))"
    using s1 by (rule start_service_noop)
  have one: "workers (logger w1 (Already_running n q)) (str_split (command s)) = {q}"
    if h: "status s \<noteq> Running"
      "\<forall>r. alive w r \<longrightarrow> proc_cmdline w r \<noteq> Inr (str_split (command s))"
  proof -
    from start_service_spawned [OF assms h(1) first] s1 obtain pr where
      pr: "procs w1 = (procs w)(q \<mapsto> pr)" "cmdline pr = Inr (str_split (command s))"
      "clock w \<le> clock w1" "alive w1 q" by auto
    have "r \<notin> workers w1 (str_split (command s))" if "r \<noteq> q" for r
    proof
      assume "r \<in> workers w1 (str_split (command s))"
      then have a: "alive w1 r" "proc_cmdline w1 r = Inr (str_split (command s))"
        by (simp_all add: workers_def)
      from that pr(1) have same: "procs w1 r = procs w r" by simp
      from alive_earlier [OF a(1) same pr(3)] have "alive w r" .
      moreover from a(2) same have "proc_cmdline w r = Inr (str_split (command s))"
        by (simp add: proc_cmdline_def)
      ultimately show False using h(2) by blast
    qed
    moreover have "q \<in> workers w1 (str_split (command s))"
      using pr by (simp add: workers_def proc_cmdline_def)
    ultimately show ?thesis by auto
  qed
  from s1 second one
  show "\<exists>q. map_option pid (services m1 n) = Some (Some q) \<and> pid_exists w1 q
           \<and> start_service m1 w1 n again = (True, m1, logger w1 (Already_running n q))
           \<and> (status s \<noteq> Running
                \<and> (\<forall>r. alive w r \<longrightarrow> proc_cmdline w r \<noteq> Inr (str_split (command s)))
              \<longrightarrow> workers (logger w1 (Already_running n q)) (str_split (command s)) = {q})"
    by auto
qed


theorem start_service_idempotent_witness:
  "case boot healthy_os of (m, w) \<Rightarrow>
   case start_service m w ''smtp_server'' True of (ok1, m1, w1) \<Rightarrow>
     ok1 \<and> map_option status (services m ''smtp_server'') = Some Stopped
     \<and> start_service m1 w1 ''smtp_server'' True
         = (True, m1, logger w1 (Already_running ''smtp_server'' 4242))
     \<and> spawn_count (logger w1 (Already_running ''smtp_server'' 4242)) = 1
     \<and> workers (logger w1 (Already_running ''smtp_server'' 4242))
          [''/usr/bin/python3'', ''smtp_server.py''] = {4242}"
proof -
  obtain m w where b: "boot healthy_os = (m, w)" by (cases "boot healthy_os")
  obtain ok1 m1 w1 where st: "start_service m w ''smtp_server'' True = (ok1, m1, w1)"
    by (cases "start_service m w ''smtp_server'' True")
  have "case boot healthy_os of (m, w) \<Rightarrow>
        case start_service m w ''smtp_server'' True of (ok1, m1, w1) \<Rightarrow>
          ok1 \<and> map_option status (services m ''smtp_server'') = Some Stopped
          \<and> map_option command (services m ''smtp_server'')
              = Some ''/usr/bin/python3 smtp_server.py''
          \<and> map_option pid (services m1 ''smtp_server'') = Some (Some 4242)
          \<and> spawn_count w1 = 1"
    by code_simp
  with b st have ev: "ok1" "map_option status (services m ''smtp_server'') = Some Stopped"
    "map_option command (services m ''smtp_server'') = Some ''/usr/bin/python3 smtp_server.py''"
    "map_option pid (services m1 ''smtp_server'') = Some (Some 4242)" "spawn_count w1 = 1"
    by simp_all
  then obtain s where s: "services m ''smtp_server'' = Some s" "status s = Stopped"
    "command s = ''/usr/bin/python3 smtp_server.py''" by auto
  have sp: "str_split ''/usr/bin/python3 smtp_server.py'' = [''/usr/bin/python3'', ''smtp_server.py'']"
    by code_simp
  have "procs (snd (boot healthy_os)) = Map.empty"
    by (simp add: boot_def init_def load_pids_def service_order_def load_pid_def
        new_services_def healthy_os_def empty_os_def)
  with b have none: "\<forall>r. alive w r \<longrightarrow> proc_cmdline w r \<noteq> Inr (str_split (command s))"
    by (simp add: alive_def)
  from st ev(1) have st': "start_service m w ''smtp_server'' True = (True, m1, w1)" by simp
  have "\<forall>m1 w1. start_service m w ''smtp_server'' True = (True, m1, w1) \<longrightarrow>
          (\<exists>q. map_option pid (services m1 ''smtp_server'') = Some (Some q) \<and> pid_exists w1 q
             \<and> start_service m1 w1 ''smtp_server'' True
                 = (True, m1, logger w1 (Already_running ''smtp_server'' q))
             \<and> (status s \<noteq> Running
                  \<and> (\<forall>r. alive w r \<longrightarrow> proc_cmdline w r \<noteq> Inr (str_split (command s)))
                \<longrightarrow> workers (logger w1 (Already_running ''smtp_server'' q))
                      (str_split (command s)) = {q}))"
    using start_service_idempotent [OF s(1), where p = 0 and w = w and background = True]
    by (rule conjunct2)
  with st' obtain q where q: "map_option pid (services m1 ''smtp_server'') = Some (Some q)"
    "start_service m1 w1 ''smtp_server'' True
       = (True, m1, logger w1 (Already_running ''smtp_server'' q))"
    "status s \<noteq> Running
       \<and> (\<forall>r. alive w r \<longrightarrow> proc_cmdline w r \<noteq> Inr (str_split (command s)))
     \<longrightarrow> workers (logger w1 (Already_running ''smtp_server'' q)) (str_split (command s)) = {q}"
    by blast
  from q(1) ev(4) have "q = 4242" by simp
  with q s none sp ev b st show ?thesis by (simp add: logger_def)
qed

section \<open>What a successful stop leaves behind\<close>

text \<open>
  Claim C4 says that whenever \<^verbatim>\<open>stop_service\<close> returns True the service is Stopped with
  no pid, no start time, zero usage and no PID file. The guard at the head of
  \<^verbatim>\<open>stop_service\<close> returns True without touching anything when the service is Stopped or
  has no pid, so a service that is Errored with no pid stays Errored. In the run below the
  operating system refuses the launch, \<^verbatim>\<open>start_service\<close> leaves the service Errored with
  no pid, and \<^verbatim>\<open>stop_service\<close> then returns True while the status is still Errored.
\<close>

theorem stop_success_leaves_errored:
  "case boot failing_os of (m0, w0) \<Rightarrow>
   case start_service m0 w0 ''smtp_server'' True of (ok1, m1, w1) \<Rightarrow>
   case stop_service m1 w1 ''smtp_server'' False of (ok2, m2, w2) \<Rightarrow>
     ok1 = False
     \<and> map_option status (services m1 ''smtp_server'') = Some Errored
     \<and> map_option pid (services m1 ''smtp_server'') = Some None
     \<and> ok2 = True
     \<and> map_option status (services m2 ''smtp_server'') = Some Errored"
  by code_simp

text \<open>
  Claim C4, amended. For a service that is Stopped or has no pid (none, or 0),
  \<^verbatim>\<open>stop_service\<close> returns True and changes nothing but the log. For a service that has
  a pid and is not Stopped: whenever \<^verbatim>\<open>stop_service\<close> returns True the PID file is absent
  and the service is Stopped with no pid; it returns True when the pid is the pid of no
  live process, and when signalling the live process raises a psutil error (no such
  process, access denied); when the live process is signalled and nothing is raised it
  returns True and start time, CPU and memory usage are reset as well; when signalling
  raises any other exception it returns False.
\<close>

theorem stop_service_success:
  assumes "services m n = Some s"
  shows "(pid s = None \<or> pid s = Some 0 \<or> status s = Stopped
            \<longrightarrow> stop_service m w n force = (True, m, logger w (Already_stopped n)))
       \<and> (\<forall>p. pid s = Some p \<and> p \<noteq> 0 \<and> status s \<noteq> Stopped \<longrightarrow>
            (case stop_service m w n force of (ok, m', w') \<Rightarrow>
               (ok \<longrightarrow> pid_files w' n = None
                      \<and> map_option status (services m' n) = Some Stopped
                      \<and> map_option pid (services m' n) = Some None)
               \<and> (\<not> pid_exists w p \<longrightarrow> ok)
               \<and> (pid_exists w p \<longrightarrow>
                    (case fst (signal_process m (logger w (Stopping_service n)) n p force) of
                       None \<Rightarrow> ok \<and> map_option start_time (services m' n) = Some None
                                 \<and> map_option cpu_percent (services m' n) = Some 0
                                 \<and> map_option memory_mb (services m' n) = Some 0
                     | Some (Psutil e) \<Rightarrow> ok
                     | Some e \<Rightarrow> \<not> ok))))"
proof (intro conjI allI impI)
  assume "pid s = None \<or> pid s = Some 0 \<or> status s = Stopped"
  with assms show "stop_service m w n force = (True, m, logger w (Already_stopped n))"
    by (auto simp: stop_service_def split: option.splits)
next
  fix p
  assume p: "pid s = Some p \<and> p \<noteq> 0 \<and> status s \<noteq> Stopped"
  define w1 where "w1 = logger w (Stopping_service n)"
  show "case stop_service m w n force of (ok, m', w') \<Rightarrow>
               (ok \<longrightarrow> pid_files w' n = None
                      \<and> map_option status (services m' n) = Some Stopped
                      \<and> map_option pid (services m' n) = Some None)
               \<and> (\<not> pid_exists w p \<longrightarrow> ok)
               \<and> (pid_exists w p \<longrightarrow>
                    (case fst (signal_process m (logger w (Stopping_service n)) n p force) of
                       None \<Rightarrow> ok \<and> map_option start_time (services m' n) = Some None
                                 \<and> map_option cpu_percent (services m' n) = Some 0
                                 \<and> map_option memory_mb (services m' n) = Some 0
                     | Some (Psutil e) \<Rightarrow> ok
                     | Some e \<Rightarrow> \<not> ok))"
  proof (cases "pid_exists w p")
    case False
    with assms p show ?thesis by (simp add: stop_service_def Let_def)
  next
    case True
    obtain r w2 where sp: "signal_process m w1 n p force = (r, w2)"
      by (cases "signal_process m w1 n p force")
    from pid_files_signal_process [of m w1 n p force] sp
    have "pid_files w2 = pid_files w1" by simp
    then have pf: "pid_files w2 = pid_files w" by (simp add: w1_def)
    note sp' = sp [unfolded w1_def]
    show ?thesis
    proof (cases r)
      case None
      with assms p True sp' pf show ?thesis
        by (simp add: stop_service_def Let_def)
    next
      case (Some e)
      with assms p True sp' pf show ?thesis
        by (cases e) (simp_all add: stop_service_def Let_def)
    qed
  qed
qed

theorem stop_service_success_witness:
  "case boot healthy_os of (m0, w0) \<Rightarrow>
   case start_service m0 w0 ''smtp_server'' True of (ok1, m1, w1) \<Rightarrow>
   case stop_service m1 w1 ''smtp_server'' False of (ok2, m2, w2) \<Rightarrow>
     map_option status (services m1 ''smtp_server'') = Some Running
     \<and> map_option pid (services m1 ''smtp_server'') = Some (Some 4242)
     \<and> pid_exists w1 4242
     \<and> fst (signal_process m1 (logger w1 (Stopping_service ''smtp_server'')) ''smtp_server''
              4242 False) = None
     \<and> ok2
     \<and> pid_files w2 ''smtp_server'' = None
     \<and> map_option status (services m2 ''smtp_server'') = Some Stopped
     \<and> map_option pid (services m2 ''smtp_server'') = Some None
     \<and> map_option start_time (services m2 ''smtp_server'') = Some None
     \<and> map_option cpu_percent (services m2 ''smtp_server'') = Some 0
     \<and> map_option memory_mb (services m2 ''smtp_server'') = Some 0"
proof -
  obtain m0 w0 where b: "boot healthy_os = (m0, w0)" by (cases "boot healthy_os")
  obtain ok1 m1 w1 where st: "start_service m0 w0 ''smtp_server'' True = (ok1, m1, w1)"
    by (cases "start_service m0 w0 ''smtp_server'' True")
  obtain ok2 m2 w2 where sp: "stop_service m1 w1 ''smtp_server'' False = (ok2, m2, w2)"
    by (cases "stop_service m1 w1 ''smtp_server'' False")
  have "case boot healthy_os of (m0, w0) \<Rightarrow>
        case start_service m0 w0 ''smtp_server'' True of (ok1, m1, w1) \<Rightarrow>
          map_option status (services m1 ''smtp_server'') = Some Running
          \<and> map_option pid (services m1 ''smtp_server'') = Some (Some 4242)
          \<and> pid_exists w1 4242
          \<and> fst (signal_process m1 (logger w1 (Stopping_service ''smtp_server''))
                   ''smtp_server'' 4242 False) = None"
    by code_simp
  with b st have ev: "map_option status (services m1 ''smtp_server'') = Some Running"
    "map_option pid (services m1 ''smtp_server'') = Some (Some 4242)"
    "pid_exists w1 4242"
    "fst (signal_process m1 (logger w1 (Stopping_service ''smtp_server''))
            ''smtp_server'' 4242 False) = None"
    by simp_all
  then obtain s where s: "services m1 ''smtp_server'' = Some s" "status s = Running"
    "pid s = Some 4242" by auto
  have "\<forall>p. pid s = Some p \<and> p \<noteq> 0 \<and> status s \<noteq> Stopped \<longrightarrow>
            (case stop_service m1 w1 ''smtp_server'' False of (ok, m', w') \<Rightarrow>
               (ok \<longrightarrow> pid_files w' ''smtp_server'' = None
                      \<and> map_option status (services m' ''smtp_server'') = Some Stopped
                      \<and> map_option pid (services m' ''smtp_server'') = Some None)
               \<and> (\<not> pid_exists w1 p \<longrightarrow> ok)
               \<and> (pid_exists w1 p \<longrightarrow>
                    (case fst (signal_process m1 (logger w1 (Stopping_service ''smtp_server''))
                                ''smtp_server'' p False) of
                       None \<Rightarrow> ok \<and> map_option start_time (services m' ''smtp_server'') = Some None
                                 \<and> map_option cpu_percent (services m' ''smtp_server'') = Some 0
                                 \<and> map_option memory_mb (services m' ''smtp_server'') = Some 0
                     | Some (Psutil e) \<Rightarrow> ok
                     | Some e \<Rightarrow> \<not> ok)))"
    using stop_service_success [OF s(1), where w = w1 and force = False] by (rule conjunct2)
  from this [rule_format, of 4242] s ev sp b st show ?thesis by simp
qed

end
